theory Spec2Isabelle
  imports Complex_Main
begin

section \<open>PriceHawk: price observation ingest and alert evaluation\<close>

text \<open>
  A shallow embedding of the price-tracking server: the manual refresh handler
  \<^verbatim>\<open>POST /api/products/:id/check\<close>, the hourly sweep, \<^verbatim>\<open>checkAlerts\<close>,
  \<^verbatim>\<open>sendPriceAlert\<close>, \<^verbatim>\<open>scrapeFacebookListing\<close> and the handler
  \<^verbatim>\<open>POST /api/products\<close> that creates alerts.

  The relational store, the mail transport and the console are explicit state. Every
  \<^verbatim>\<open>await pool.query\<close> and every \<^verbatim>\<open>await transporter.sendMail\<close> may reject: the state
  carries one list of flags for each, read front to back, one flag per call, where
  \<open>True\<close> makes that call reject; a call beyond the end of the list succeeds.
  \<^verbatim>\<open>NOW()\<close> is a logical clock that advances by one with every statement sent to the
  pool, so that two writes are told apart by their timestamps.
\<close>

subsection \<open>Rows and state\<close>

text \<open>
  Prices are JavaScript numbers that the code only compares (\<^verbatim>\<open>!==\<close>, \<^verbatim>\<open><=\<close>):
  they are modelled as rationals, which order every finite double as JavaScript does.
\<close>

type_synonym price = rat
type_synonym timestamp = nat

record product =
  p_id :: nat
  title :: string
  description :: string
  current_price :: price
  image_url :: string
  location :: string
  seller_name :: string
  listing_id :: string
  marketplace_url :: string
  status :: string
  last_checked :: timestamp

record history_entry =
  h_product_id :: nat
  h_price :: price
  checked_at :: timestamp

record alert =
  a_id :: nat
  product_id :: nat
  user_email :: string
  target_price :: price
  alert_type :: string
  is_active :: bool
  triggered_at :: "timestamp option"

text \<open>A row of the join in \<^verbatim>\<open>checkAlerts\<close>: \<^verbatim>\<open>a.*, p.title, p.marketplace_url\<close>.\<close>

record alert_row =
  row_alert :: alert
  row_title :: string
  row_marketplace_url :: string

text \<open>The object returned by \<^verbatim>\<open>scrapeFacebookListing\<close>.\<close>

record listing_data =
  ld_title :: string
  ld_description :: string
  ld_price :: price
  ld_image_url :: string
  ld_location :: string
  ld_seller_name :: string
  ld_listing_id :: string
  ld_marketplace_url :: string

text \<open>
  \<^verbatim>\<open>mailOptions\<close>: the subject and the HTML body are templates over the alert's title,
  the current price, the target price and the listing URL; the model keeps these fields.
\<close>

record mail =
  mail_to :: string
  mail_title :: string
  mail_current_price :: price
  mail_target_price :: price
  mail_url :: string

datatype error = Invalid_url | Store_failure | Mail_failure

text \<open>The lines written with \<^verbatim>\<open>console.log\<close> and \<^verbatim>\<open>console.error\<close>.\<close>

datatype log_entry =
    Scraping_error
  | Error_adding_product
  | Error_checking_product
  | Error_checking_alerts
  | Alert_sent string
  | Error_sending_email
  | Running_scheduled_price_check
  | Error_checking_product_id nat
  | Price_check_completed
  | Error_in_scheduled_price_check

record sys =
  products :: "product list"
  price_history :: "history_entry list"
  alerts :: "alert list"
  next_product_id :: nat
  next_alert_id :: nat
  clock :: timestamp
  db_faults :: "bool list"
  mail_faults :: "bool list"
  outbox :: "mail list"
  console :: "log_entry list"

text \<open>
  An \<^verbatim>\<open>async\<close> function either throws (\<open>Inl\<close>, with the state it leaves behind) or
  returns a value (\<open>Inr\<close>).
\<close>

type_synonym 'a result = "(error \<times> sys) + ('a \<times> sys)"

definition state_of :: "'a result \<Rightarrow> sys" where
  "state_of r = (case r of Inl (e, s) \<Rightarrow> s | Inr (v, s) \<Rightarrow> s)"

definition throws :: "'a result \<Rightarrow> bool" where
  "throws r = (case r of Inl x \<Rightarrow> True | Inr y \<Rightarrow> False)"

definition log_line :: "log_entry \<Rightarrow> sys \<Rightarrow> sys" where
  "log_line l s = s\<lparr>console := console s @ [l]\<rparr>"

subsection \<open>The pool and its statements\<close>

definition query_rejects :: "sys \<Rightarrow> bool" where
  "query_rejects s = (db_faults s \<noteq> [] \<and> hd (db_faults s))"

definition tick :: "sys \<Rightarrow> sys" where
  "tick s = s\<lparr>clock := Suc (clock s), db_faults := tl (db_faults s)\<rparr>"

text \<open>
  \<^verbatim>\<open>await pool.query(sql, params)\<close>: the statement runs against the store, or the
  promise rejects and the store is left as it was.
\<close>

definition pool_query :: "(sys \<Rightarrow> 'a \<times> sys) \<Rightarrow> sys \<Rightarrow> 'a result" where
  "pool_query stmt s =
     (if query_rejects s then Inl (Store_failure, tick s) else Inr (stmt (tick s)))"

text \<open>\<^verbatim>\<open>SELECT * FROM products WHERE id = $1\<close>\<close>

definition select_product :: "nat \<Rightarrow> sys \<Rightarrow> product list \<times> sys" where
  "select_product i s = (filter (\<lambda>p. p_id p = i) (products s), s)"

text \<open>\<^verbatim>\<open>UPDATE products SET current_price = $1, last_checked = NOW() WHERE id = $2\<close>\<close>

definition update_product_price :: "price \<Rightarrow> nat \<Rightarrow> sys \<Rightarrow> unit \<times> sys" where
  "update_product_price v i s =
     ((), s\<lparr>products :=
             map (\<lambda>p. if p_id p = i then p\<lparr>current_price := v, last_checked := clock s\<rparr> else p)
               (products s)\<rparr>)"

text \<open>
  Modelled from the spec: the table declarations are not among the sources, so the
  column \<^verbatim>\<open>checked_at\<close> that the statement leaves out takes the time of the insert
  (``appends a PriceHistoryEntry with the new price and current time'').
\<close>

definition new_history_entry :: "nat \<Rightarrow> price \<Rightarrow> timestamp \<Rightarrow> history_entry" where
  "new_history_entry i v t = \<lparr>h_product_id = i, h_price = v, checked_at = t\<rparr>"

text \<open>\<^verbatim>\<open>INSERT INTO price_history (product_id, price) VALUES ($1, $2)\<close>\<close>

definition insert_price_history :: "nat \<Rightarrow> price \<Rightarrow> sys \<Rightarrow> unit \<times> sys" where
  "insert_price_history i v s =
     ((), s\<lparr>price_history := price_history s @ [new_history_entry i v (clock s)]\<rparr>)"

text \<open>
  \<^verbatim>\<open>SELECT a.*, p.title, p.marketplace_url FROM alerts a JOIN products p
  ON a.product_id = p.id WHERE a.product_id = $1 AND a.is_active = true\<close>
\<close>

definition join_row :: "alert \<Rightarrow> product \<Rightarrow> alert_row" where
  "join_row a p = \<lparr>row_alert = a, row_title = title p, row_marketplace_url = marketplace_url p\<rparr>"

definition select_active_alerts :: "nat \<Rightarrow> sys \<Rightarrow> alert_row list \<times> sys" where
  "select_active_alerts i s =
     (concat (map (\<lambda>a. map (join_row a) (filter (\<lambda>p. p_id p = product_id a) (products s)))
                  (filter (\<lambda>a. product_id a = i \<and> is_active a) (alerts s))), s)"

text \<open>\<^verbatim>\<open>UPDATE alerts SET triggered_at = NOW(), is_active = false WHERE id = $1\<close>\<close>

definition mark_triggered :: "nat \<Rightarrow> sys \<Rightarrow> unit \<times> sys" where
  "mark_triggered i s =
     ((), s\<lparr>alerts :=
             map (\<lambda>a. if a_id a = i then a\<lparr>triggered_at := Some (clock s), is_active := False\<rparr>
                       else a)
               (alerts s)\<rparr>)"

subsection \<open>Sending the alert email\<close>

definition sendMail :: "mail \<Rightarrow> sys \<Rightarrow> unit result" where
  "sendMail m s =
     (if mail_faults s \<noteq> [] \<and> hd (mail_faults s)
      then Inl (Mail_failure, s\<lparr>mail_faults := tl (mail_faults s)\<rparr>)
      else Inr ((), s\<lparr>mail_faults := tl (mail_faults s), outbox := outbox s @ [m]\<rparr>))"

definition mailOptions :: "alert_row \<Rightarrow> price \<Rightarrow> mail" where
  "mailOptions r currentPrice =
     \<lparr>mail_to = user_email (row_alert r), mail_title = row_title r,
      mail_current_price = currentPrice, mail_target_price = target_price (row_alert r),
      mail_url = row_marketplace_url r\<rparr>"

definition sendPriceAlert :: "alert_row \<Rightarrow> price \<Rightarrow> sys \<Rightarrow> unit result" where
  "sendPriceAlert r currentPrice s =
     (case sendMail (mailOptions r currentPrice) s of
        Inl (e, s') \<Rightarrow> Inr ((), log_line Error_sending_email s')
      | Inr (u, s') \<Rightarrow> Inr ((), log_line (Alert_sent (user_email (row_alert r))) s'))"

subsection \<open>Checking the alerts of a product\<close>

text \<open>
  \<^verbatim>\<open>checkAlerts\<close> has no \<^verbatim>\<open>return\<close> statement: its promise resolves to
  \<^verbatim>\<open>undefined\<close>.
\<close>

datatype js_value = Undefined | Array "alert_row list"

text \<open>The \<^verbatim>\<open>for\<close> loop over \<^verbatim>\<open>alerts.rows\<close>, the rows read before the loop.\<close>

fun alerts_loop :: "price \<Rightarrow> alert_row list \<Rightarrow> sys \<Rightarrow> unit result" where
  "alerts_loop currentPrice [] s = Inr ((), s)"
| "alerts_loop currentPrice (r # rs) s =
     (if currentPrice \<le> target_price (row_alert r) then
        (case sendPriceAlert r currentPrice s of
           Inl x \<Rightarrow> Inl x
         | Inr (u, s1) \<Rightarrow>
             (case pool_query (mark_triggered (a_id (row_alert r))) s1 of
                Inl x \<Rightarrow> Inl x
              | Inr (u', s2) \<Rightarrow> alerts_loop currentPrice rs s2))
      else alerts_loop currentPrice rs s)"

definition checkAlerts_body :: "nat \<Rightarrow> price \<Rightarrow> sys \<Rightarrow> unit result" where
  "checkAlerts_body productId currentPrice s =
     (case pool_query (select_active_alerts productId) s of
        Inl x \<Rightarrow> Inl x
      | Inr (rows, s1) \<Rightarrow> alerts_loop currentPrice rows s1)"

definition checkAlerts :: "nat \<Rightarrow> price \<Rightarrow> sys \<Rightarrow> js_value result" where
  "checkAlerts productId currentPrice s =
     (case checkAlerts_body productId currentPrice s of
        Inl (e, s') \<Rightarrow> Inr (Undefined, log_line Error_checking_alerts s')
      | Inr (u, s') \<Rightarrow> Inr (Undefined, s'))"

subsection \<open>Ingesting an observed price\<close>

text \<open>The test \<^verbatim>\<open>listingData.price !== product.current_price\<close>.\<close>

definition price_changed :: "product \<Rightarrow> price \<Rightarrow> bool" where
  "price_changed product observed = (observed \<noteq> current_price product)"

text \<open>
  The statements that the manual refresh (after its scrape) and every iteration of the
  sweep run alike: update the product, then, if the price changed, add to the price
  history and check the alerts. \<open>product\<close> is the row read before.
\<close>

definition ingest :: "nat \<Rightarrow> product \<Rightarrow> price \<Rightarrow> sys \<Rightarrow> unit result" where
  "ingest i product observed s =
     (case pool_query (update_product_price observed i) s of
        Inl x \<Rightarrow> Inl x
      | Inr (u, s1) \<Rightarrow>
          (if price_changed product observed then
             (case pool_query (insert_price_history i observed) s1 of
                Inl x \<Rightarrow> Inl x
              | Inr (u', s2) \<Rightarrow>
                  (case checkAlerts i observed s2 of
                     Inl x \<Rightarrow> Inl x
                   | Inr (v, s3) \<Rightarrow> Inr ((), s3)))
           else Inr ((), s1)))"

subsection \<open>The scraper\<close>

definition is_digit :: "char \<Rightarrow> bool" where
  "is_digit c = (c \<in> set ''0123456789'')"

definition starts_with :: "string \<Rightarrow> string \<Rightarrow> bool" where
  "starts_with pat str = (take (length pat) str = pat)"

text \<open>
  \<^verbatim>\<open>url.match(/\/marketplace\/item\/(\d+)/)\<close>: the first place in the URL where
  \<^verbatim>\<open>/marketplace/item/\<close> is followed by a digit; the group is the longest run of
  digits there.
\<close>

fun match_item :: "string \<Rightarrow> string option" where
  "match_item [] = None"
| "match_item (c # cs) =
     (if starts_with ''/marketplace/item/'' (c # cs)
         \<and> takeWhile is_digit (drop (length ''/marketplace/item/'') (c # cs)) \<noteq> []
      then Some (takeWhile is_digit (drop (length ''/marketplace/item/'') (c # cs)))
      else match_item cs)"

text \<open>The \<^verbatim>\<open>try\<close> block of \<^verbatim>\<open>scrapeFacebookListing\<close>: mock data, the price always 0.\<close>

definition mock_listing :: "string \<Rightarrow> error + listing_data" where
  "mock_listing url =
     (case match_item url of
        None \<Rightarrow> Inl Invalid_url
      | Some d \<Rightarrow>
          Inr \<lparr>ld_title = ''Product from Marketplace'', ld_description = ''Tracked item'',
               ld_price = 0, ld_image_url = [], ld_location = ''Location TBD'',
               ld_seller_name = ''Seller TBD'', ld_listing_id = d, ld_marketplace_url = url\<rparr>)"

text \<open>
  The scraper is a stub. The handlers below are written over the function that reads
  the listing data off a URL, so that what is proved of them holds of the stub and of any
  scraper that reads real prices; \<open>scrape_with\<close> adds the \<^verbatim>\<open>catch\<close> block of
  \<^verbatim>\<open>scrapeFacebookListing\<close>, which logs and throws again.
\<close>

type_synonym scraper = "string \<Rightarrow> error + listing_data"

definition scrape_with :: "scraper \<Rightarrow> string \<Rightarrow> sys \<Rightarrow> listing_data result" where
  "scrape_with observe url s =
     (case observe url of
        Inl e \<Rightarrow> Inl (e, log_line Scraping_error s)
      | Inr d \<Rightarrow> Inr (d, s))"

definition scrapeFacebookListing :: "string \<Rightarrow> sys \<Rightarrow> listing_data result" where
  "scrapeFacebookListing = scrape_with mock_listing"

subsection \<open>Manual refresh: POST /api/products/:id/check\<close>

datatype response =
    Product_updated price
  | Product_not_found
  | Failed_to_check_product
  | Marketplace_url_required
  | Product_json "product option"
  | Failed_to_add_product

definition check_body :: "scraper \<Rightarrow> nat \<Rightarrow> sys \<Rightarrow> response result" where
  "check_body observe i s =
     (case pool_query (select_product i) s of
        Inl x \<Rightarrow> Inl x
      | Inr (rows, s1) \<Rightarrow>
          (case rows of
             [] \<Rightarrow> Inr (Product_not_found, s1)
           | product # others \<Rightarrow>
               (case scrape_with observe (marketplace_url product) s1 of
                  Inl x \<Rightarrow> Inl x
                | Inr (listingData, s2) \<Rightarrow>
                    (case ingest i product (ld_price listingData) s2 of
                       Inl x \<Rightarrow> Inl x
                     | Inr (u, s3) \<Rightarrow> Inr (Product_updated (ld_price listingData), s3)))))"

definition check_product_with :: "scraper \<Rightarrow> nat \<Rightarrow> sys \<Rightarrow> response \<times> sys" where
  "check_product_with observe i s =
     (case check_body observe i s of
        Inl (e, s') \<Rightarrow> (Failed_to_check_product, log_line Error_checking_product s')
      | Inr (r, s') \<Rightarrow> (r, s'))"

definition check_product :: "nat \<Rightarrow> sys \<Rightarrow> response \<times> sys" where
  "check_product = check_product_with mock_listing"

subsection \<open>The hourly sweep\<close>

text \<open>\<^verbatim>\<open>SELECT * FROM products WHERE status = 'active'\<close>\<close>

definition select_active_products :: "sys \<Rightarrow> product list \<times> sys" where
  "select_active_products s = (filter (\<lambda>p. status p = ''active'') (products s), s)"

text \<open>
  The loop over \<^verbatim>\<open>products.rows\<close>; each iteration has its own \<^verbatim>\<open>try\<close>. The two
  seconds of sleep between iterations are not modelled.
\<close>

fun sweep_loop :: "scraper \<Rightarrow> product list \<Rightarrow> sys \<Rightarrow> sys" where
  "sweep_loop observe [] s = s"
| "sweep_loop observe (product # rest) s =
     (case (case scrape_with observe (marketplace_url product) s of
              Inl x \<Rightarrow> Inl x
            | Inr (listingData, s1) \<Rightarrow> ingest (p_id product) product (ld_price listingData) s1) of
        Inl (e, s') \<Rightarrow>
          sweep_loop observe rest (log_line (Error_checking_product_id (p_id product)) s')
      | Inr (u, s') \<Rightarrow> sweep_loop observe rest s')"

definition scheduled_check_with :: "scraper \<Rightarrow> sys \<Rightarrow> sys" where
  "scheduled_check_with observe s =
     (case pool_query select_active_products (log_line Running_scheduled_price_check s) of
        Inl (e, s') \<Rightarrow> log_line Error_in_scheduled_price_check s'
      | Inr (rows, s1) \<Rightarrow> log_line Price_check_completed (sweep_loop observe rows s1))"

definition scheduled_check :: "sys \<Rightarrow> sys" where
  "scheduled_check = scheduled_check_with mock_listing"

subsection \<open>Tracking a product and creating its alert: POST /api/products\<close>

text \<open>The request body; a field is \<open>None\<close> when the body leaves it out.\<close>

record add_request =
  req_marketplace_url :: "string option"
  req_user_email :: "string option"
  req_target_price :: "price option"

text \<open>JavaScript truthiness of a string and of a number.\<close>

definition truthy_string :: "string option \<Rightarrow> bool" where
  "truthy_string v = (case v of None \<Rightarrow> False | Some str \<Rightarrow> str \<noteq> [])"

definition truthy_number :: "price option \<Rightarrow> bool" where
  "truthy_number v = (case v of None \<Rightarrow> False | Some n \<Rightarrow> n \<noteq> 0)"

text \<open>\<^verbatim>\<open>SELECT id FROM products WHERE listing_id = $1\<close>\<close>

definition select_by_listing_id :: "string \<Rightarrow> sys \<Rightarrow> nat list \<times> sys" where
  "select_by_listing_id l s = (map p_id (filter (\<lambda>p. listing_id p = l) (products s)), s)"

text \<open>
  \<^verbatim>\<open>UPDATE products SET current_price = $1, last_checked = NOW(), status = 'active'
  WHERE id = $2\<close>
\<close>

definition reactivate_product :: "price \<Rightarrow> nat \<Rightarrow> sys \<Rightarrow> unit \<times> sys" where
  "reactivate_product v i s =
     ((), s\<lparr>products :=
             map (\<lambda>p. if p_id p = i
                       then p\<lparr>current_price := v, last_checked := clock s, status := ''active''\<rparr>
                       else p)
               (products s)\<rparr>)"

text \<open>
  Modelled from the spec: the table declarations are not among the sources. A new
  product takes the next identity of its table and the time of the insert as its
  last-checked timestamp.
\<close>

definition new_product :: "nat \<Rightarrow> listing_data \<Rightarrow> string \<Rightarrow> timestamp \<Rightarrow> product" where
  "new_product i d url t =
     \<lparr>p_id = i, title = ld_title d, description = ld_description d,
      current_price = ld_price d, image_url = ld_image_url d, location = ld_location d,
      seller_name = ld_seller_name d, listing_id = ld_listing_id d, marketplace_url = url,
      status = ''active'', last_checked = t\<rparr>"

text \<open>\<^verbatim>\<open>INSERT INTO products (...) VALUES (..., 'active') RETURNING *\<close>\<close>

definition insert_product :: "listing_data \<Rightarrow> string \<Rightarrow> sys \<Rightarrow> nat \<times> sys" where
  "insert_product d url s =
     (next_product_id s,
      s\<lparr>products := products s @ [new_product (next_product_id s) d url (clock s)],
        next_product_id := Suc (next_product_id s)\<rparr>)"

text \<open>
  Modelled from the spec: the table declarations are not among the sources. The columns
  that the insert leaves out take the values the spec gives a new alert (``created
  active'', ``triggered timestamp (null until fired)''), and the alert takes the next
  identity of its table.
\<close>

definition new_alert :: "nat \<Rightarrow> nat \<Rightarrow> string \<Rightarrow> price \<Rightarrow> string \<Rightarrow> alert" where
  "new_alert i pid email target kind =
     \<lparr>a_id = i, product_id = pid, user_email = email, target_price = target,
      alert_type = kind, is_active = True, triggered_at = None\<rparr>"

text \<open>
  \<^verbatim>\<open>INSERT INTO alerts (product_id, user_email, target_price, alert_type)
  VALUES ($1, $2, $3, $4)\<close>
\<close>

definition insert_alert :: "nat \<Rightarrow> string \<Rightarrow> price \<Rightarrow> string \<Rightarrow> sys \<Rightarrow> unit \<times> sys" where
  "insert_alert pid email target kind s =
     ((), s\<lparr>alerts := alerts s @ [new_alert (next_alert_id s) pid email target kind],
             next_alert_id := Suc (next_alert_id s)\<rparr>)"

definition upsert_product :: "listing_data \<Rightarrow> string \<Rightarrow> nat list \<Rightarrow> sys \<Rightarrow> nat result" where
  "upsert_product d url existing s =
     (case existing of
        productId # others \<Rightarrow>
          (case pool_query (reactivate_product (ld_price d) productId) s of
             Inl x \<Rightarrow> Inl x
           | Inr (u, s1) \<Rightarrow> Inr (productId, s1))
      | [] \<Rightarrow> pool_query (insert_product d url) s)"

definition create_alert :: "add_request \<Rightarrow> nat \<Rightarrow> sys \<Rightarrow> unit result" where
  "create_alert req productId s =
     (if truthy_string (req_user_email req) \<and> truthy_number (req_target_price req)
      then pool_query (insert_alert productId (the (req_user_email req))
                         (the (req_target_price req)) ''price_drop'') s
      else Inr ((), s))"

definition add_body :: "scraper \<Rightarrow> add_request \<Rightarrow> sys \<Rightarrow> response result" where
  "add_body observe req s =
     (if \<not> truthy_string (req_marketplace_url req) then Inr (Marketplace_url_required, s)
      else
        (case scrape_with observe (the (req_marketplace_url req)) s of
           Inl x \<Rightarrow> Inl x
         | Inr (listingData, s1) \<Rightarrow>
         (case pool_query (select_by_listing_id (ld_listing_id listingData)) s1 of
            Inl x \<Rightarrow> Inl x
          | Inr (existing, s2) \<Rightarrow>
          (case upsert_product listingData (the (req_marketplace_url req)) existing s2 of
             Inl x \<Rightarrow> Inl x
           | Inr (productId, s3) \<Rightarrow>
           (case pool_query (insert_price_history productId (ld_price listingData)) s3 of
              Inl x \<Rightarrow> Inl x
            | Inr (u, s4) \<Rightarrow>
            (case create_alert req productId s4 of
               Inl x \<Rightarrow> Inl x
             | Inr (u', s5) \<Rightarrow>
             (case pool_query (select_product productId) s5 of
                Inl x \<Rightarrow> Inl x
              | Inr (rows, s6) \<Rightarrow>
                  Inr (Product_json (case rows of [] \<Rightarrow> None | p # ps \<Rightarrow> Some p), s6))))))))"

definition add_product_with :: "scraper \<Rightarrow> add_request \<Rightarrow> sys \<Rightarrow> response \<times> sys" where
  "add_product_with observe req s =
     (case add_body observe req s of
        Inl (e, s') \<Rightarrow> (Failed_to_add_product, log_line Error_adding_product s')
      | Inr (r, s') \<Rightarrow> (r, s'))"

definition add_product :: "add_request \<Rightarrow> sys \<Rightarrow> response \<times> sys" where
  "add_product = add_product_with mock_listing"

subsection \<open>Sequences of operations\<close>

datatype op =
    Add_product scraper add_request
  | Check_product scraper nat
  | Scheduled_check scraper
  | Check_alerts nat price

fun step :: "op \<Rightarrow> sys \<Rightarrow> sys" where
  "step (Add_product observe req) s = snd (add_product_with observe req s)"
| "step (Check_product observe i) s = snd (check_product_with observe i s)"
| "step (Scheduled_check observe) s = scheduled_check_with observe s"
| "step (Check_alerts i v) s = state_of (checkAlerts i v s)"

fun run :: "op list \<Rightarrow> sys \<Rightarrow> sys" where
  "run [] s = s"
| "run (x # xs) s = run xs (step x s)"

subsection \<open>Runs without faults, the rows that fire, examples\<close>

text \<open>No statement sent to the pool rejects from this state on.\<close>

definition store_ok :: "sys \<Rightarrow> bool" where
  "store_ok s = (True \<notin> set (db_faults s))"

text \<open>No mail is refused from this state on.\<close>

definition mail_ok :: "sys \<Rightarrow> bool" where
  "mail_ok s = (True \<notin> set (mail_faults s))"

text \<open>The identities of the rows that pass the test \<^verbatim>\<open>currentPrice <= alert.target_price\<close>.\<close>

definition firing_ids :: "price \<Rightarrow> alert_row list \<Rightarrow> nat set" where
  "firing_ids cp rows =
     set (map (\<lambda>r. a_id (row_alert r)) (filter (\<lambda>r. cp \<le> target_price (row_alert r)) rows))"

text \<open>What the \<^verbatim>\<open>UPDATE\<close> of \<^verbatim>\<open>checkAlerts\<close> makes of a row of \<^verbatim>\<open>alerts\<close>.\<close>

definition deactivated :: "timestamp \<Rightarrow> alert \<Rightarrow> alert" where
  "deactivated t a = a\<lparr>triggered_at := Some t, is_active := False\<rparr>"

text \<open>A listing priced at 100 with one active alert at 90, and no fault ahead.\<close>

definition listing_100 :: product where
  "listing_100 =
     \<lparr>p_id = 1, title = ''Product from Marketplace'', description = ''Tracked item'',
      current_price = 100, image_url = [], location = ''Location TBD'',
      seller_name = ''Seller TBD'', listing_id = ''123'',
      marketplace_url = ''https://www.facebook.com/marketplace/item/123'',
      status = ''active'', last_checked = 0\<rparr>"

definition alert_90 :: alert where
  "alert_90 =
     \<lparr>a_id = 1, product_id = 1, user_email = ''buyer@example.com'', target_price = 90,
      alert_type = ''price_drop'', is_active = True, triggered_at = None\<rparr>"

definition scenario_start :: sys where
  "scenario_start =
     \<lparr>products = [listing_100], price_history = [new_history_entry 1 100 0],
      alerts = [alert_90], next_product_id = 2, next_alert_id = 2, clock = 0,
      db_faults = [], mail_faults = [], outbox = [], console = []\<rparr>"

text \<open>
  The calls of \<^verbatim>\<open>transporter.sendMail\<close> paired with their outcomes: the k-th call fails
  when the k-th flag says so.
\<close>

fun deliveries :: "bool list \<Rightarrow> 'a list \<Rightarrow> ('a \<times> bool) list" where
  "deliveries fs [] = []"
| "deliveries fs (x # xs) = (x, fs \<noteq> [] \<and> hd fs) # deliveries (tl fs) xs"

text \<open>What an \<^verbatim>\<open>async\<close> function returns, if it returns.\<close>

definition returned :: "'a result \<Rightarrow> 'a option" where
  "returned r = (case r of Inl x \<Rightarrow> None | Inr (v, s) \<Rightarrow> Some v)"

text \<open>The stub scraper with the price it reads set to \<open>v\<close>.\<close>

definition priced :: "price \<Rightarrow> scraper" where
  "priced v url = (case mock_listing url of Inl e \<Rightarrow> Inl e | Inr d \<Rightarrow> Inr (d\<lparr>ld_price := v\<rparr>))"

text \<open>Three manual refreshes of the example listing, observing 95, then 90, then 85.\<close>

definition after_95 :: sys where
  "after_95 = snd (check_product_with (priced 95) 1 scenario_start)"

definition after_90 :: sys where
  "after_90 = snd (check_product_with (priced 90) 1 after_95)"

definition after_85 :: sys where
  "after_85 = snd (check_product_with (priced 85) 1 after_90)"

text \<open>
  A second alert on the example listing, at 95, and a store that accepts the next
  statement and rejects the one after it.
\<close>

definition alert_95 :: alert where
  "alert_95 =
     \<lparr>a_id = 2, product_id = 1, user_email = ''second@example.com'', target_price = 95,
      alert_type = ''price_drop'', is_active = True, triggered_at = None\<rparr>"

definition two_alerts :: sys where
  "two_alerts = scenario_start\<lparr>alerts := [alert_90, alert_95], next_alert_id := 3,
                                db_faults := [False, True]\<rparr>"

text \<open>What a scraper that reads the price \<open>v\<close> returns for the example listing.\<close>

definition listing_data_123 :: "price \<Rightarrow> listing_data" where
  "listing_data_123 v =
     \<lparr>ld_title = ''Product from Marketplace'', ld_description = ''Tracked item'',
      ld_price = v, ld_image_url = [], ld_location = ''Location TBD'',
      ld_seller_name = ''Seller TBD'', ld_listing_id = ''123'',
      ld_marketplace_url = ''https://www.facebook.com/marketplace/item/123''\<rparr>"

text \<open>
  The example with a store that rejects its fifth statement: in a manual refresh that
  is the deactivation of the first alert that fires.
\<close>

definition failing_deactivation :: sys where
  "failing_deactivation = scenario_start\<lparr>db_faults := [False, False, False, False, True]\<rparr>"

text \<open>\<open>n\<close> manual refreshes of listing \<open>i\<close> in succession.\<close>

definition refresh_times :: "scraper \<Rightarrow> nat \<Rightarrow> nat \<Rightarrow> sys \<Rightarrow> sys" where
  "refresh_times observe i n = (\<lambda>t. snd (check_product_with observe i t)) ^^ n"

text \<open>The example with the listing stored at the price 0, which is what the stub scraper reads.\<close>

definition stored_at_0 :: sys where
  "stored_at_0 = scenario_start\<lparr>products := [listing_100\<lparr>current_price := 0\<rparr>]\<rparr>"

text \<open>Alert identities are distinct and were handed out by the table's counter.\<close>

definition alert_ids_ok :: "sys \<Rightarrow> bool" where
  "alert_ids_ok s =
     (distinct (map a_id (alerts s)) \<and> list_all (\<lambda>i. i < next_alert_id s) (map a_id (alerts s)))"

text \<open>An alert is inactive exactly when it carries a triggered timestamp.\<close>

definition lifecycle_ok :: "sys \<Rightarrow> bool" where
  "lifecycle_ok s = list_all (\<lambda>a. is_active a = (triggered_at a = None)) (alerts s)"

text \<open>
  A property of the state that every statement of the handlers, every line on the
  console and every evaluation of alerts keeps.
\<close>

definition stable :: "(sys \<Rightarrow> bool) \<Rightarrow> bool" where
  "stable P =
     ((\<forall>t. P t \<longrightarrow> P (tick t))
      \<and> (\<forall>l t. P t \<longrightarrow> P (log_line l t))
      \<and> (\<forall>v i t. P t \<longrightarrow> P (snd (update_product_price v i t)))
      \<and> (\<forall>v i t. P t \<longrightarrow> P (snd (reactivate_product v i t)))
      \<and> (\<forall>d url t. P t \<longrightarrow> P (snd (insert_product d url t)))
      \<and> (\<forall>i v t. P t \<longrightarrow> P (snd (insert_price_history i v t)))
      \<and> (\<forall>i e v k t. P t \<longrightarrow> P (snd (insert_alert i e v k t)))
      \<and> (\<forall>i v t. P t \<longrightarrow> P (state_of (checkAlerts i v t))))"

text \<open>
  A request to track the example listing with an alert at 50, the example after its
  alert has fired, and a sequence of operations of every kind.
\<close>

definition alert_request :: add_request where
  "alert_request =
     \<lparr>req_marketplace_url = Some ''https://www.facebook.com/marketplace/item/123'',
      req_user_email = Some ''buyer@example.com'', req_target_price = Some 50\<rparr>"

definition fired_example :: sys where
  "fired_example = scenario_start\<lparr>alerts := [deactivated 9 alert_90]\<rparr>"

definition example_ops :: "op list" where
  "example_ops =
     [Add_product mock_listing alert_request, Check_product (priced 50) 1,
      Scheduled_check mock_listing, Check_alerts 1 10]"

section \<open>Properties\<close>

subsection \<open>Basic facts about the state\<close>

lemma store_ok_tick: "store_ok s \<Longrightarrow> store_ok (tick s)"
  by (cases "db_faults s") (auto simp: store_ok_def tick_def)

lemma store_ok_accepts: "store_ok s \<Longrightarrow> \<not> query_rejects s"
  by (cases "db_faults s") (auto simp: store_ok_def query_rejects_def)

lemma pool_query_ok: "store_ok s \<Longrightarrow> pool_query stmt s = Inr (stmt (tick s))"
  by (simp add: pool_query_def store_ok_accepts)

lemma tick_fields [simp]:
  "products (tick s) = products s" "price_history (tick s) = price_history s"
  "alerts (tick s) = alerts s" "clock (tick s) = Suc (clock s)"
  "mail_faults (tick s) = mail_faults s" "outbox (tick s) = outbox s"
  "console (tick s) = console s" "next_alert_id (tick s) = next_alert_id s"
  "next_product_id (tick s) = next_product_id s" "db_faults (tick s) = tl (db_faults s)"
  by (simp_all add: tick_def)

lemma log_line_fields [simp]:
  "products (log_line l s) = products s" "price_history (log_line l s) = price_history s"
  "alerts (log_line l s) = alerts s" "clock (log_line l s) = clock s"
  "mail_faults (log_line l s) = mail_faults s" "outbox (log_line l s) = outbox s"
  "console (log_line l s) = console s @ [l]" "next_alert_id (log_line l s) = next_alert_id s"
  "next_product_id (log_line l s) = next_product_id s" "db_faults (log_line l s) = db_faults s"
  by (simp_all add: log_line_def)

lemma sendPriceAlert_returns:
  "sendPriceAlert r cp s = Inr ((), state_of (sendPriceAlert r cp s))"
  by (simp add: sendPriceAlert_def sendMail_def state_of_def)

lemma sendPriceAlert_fields [simp]:
  "products (state_of (sendPriceAlert r cp s)) = products s"
  "price_history (state_of (sendPriceAlert r cp s)) = price_history s"
  "alerts (state_of (sendPriceAlert r cp s)) = alerts s"
  "clock (state_of (sendPriceAlert r cp s)) = clock s"
  "db_faults (state_of (sendPriceAlert r cp s)) = db_faults s"
  "next_alert_id (state_of (sendPriceAlert r cp s)) = next_alert_id s"
  "next_product_id (state_of (sendPriceAlert r cp s)) = next_product_id s"
  "mail_faults (state_of (sendPriceAlert r cp s)) = tl (mail_faults s)"
  by (simp_all add: sendPriceAlert_def sendMail_def state_of_def)

lemma sendPriceAlert_outbox:
  "outbox (state_of (sendPriceAlert r cp s)) =
     (if mail_faults s \<noteq> [] \<and> hd (mail_faults s) then outbox s
      else outbox s @ [mailOptions r cp])"
  by (simp add: sendPriceAlert_def sendMail_def state_of_def)

lemma sendPriceAlert_console:
  "console (state_of (sendPriceAlert r cp s)) =
     console s @ [if mail_faults s \<noteq> [] \<and> hd (mail_faults s) then Error_sending_email
                  else Alert_sent (user_email (row_alert r))]"
  by (simp add: sendPriceAlert_def sendMail_def state_of_def)

lemma firing_ids_simps [simp]:
  "firing_ids cp [] = {}"
  "firing_ids cp (r # rs) =
     (if cp \<le> target_price (row_alert r) then insert (a_id (row_alert r)) (firing_ids cp rs)
      else firing_ids cp rs)"
  by (simp_all add: firing_ids_def)

lemma mark_triggered_fields [simp]:
  "products (snd (mark_triggered i s)) = products s"
  "price_history (snd (mark_triggered i s)) = price_history s"
  "clock (snd (mark_triggered i s)) = clock s"
  "db_faults (snd (mark_triggered i s)) = db_faults s"
  "mail_faults (snd (mark_triggered i s)) = mail_faults s"
  "outbox (snd (mark_triggered i s)) = outbox s"
  "console (snd (mark_triggered i s)) = console s"
  "next_alert_id (snd (mark_triggered i s)) = next_alert_id s"
  "next_product_id (snd (mark_triggered i s)) = next_product_id s"
  "alerts (snd (mark_triggered i s)) =
     map (\<lambda>a. if a_id a = i then deactivated (clock s) a else a) (alerts s)"
  by (simp_all add: mark_triggered_def deactivated_def)

lemma mark_triggered_unit: "mark_triggered i s = ((), snd (mark_triggered i s))"
  by (simp add: mark_triggered_def)

lemma store_ok_cong:
  "db_faults s' = db_faults s \<Longrightarrow> store_ok s' = store_ok s"
  by (simp add: store_ok_def)

lemma deactivated_twice [simp]:
  "deactivated t (deactivated t' a) = deactivated t a" "a_id (deactivated t a) = a_id a"
  by (simp_all add: deactivated_def)

lemma alerts_loop_store_ok:
  "store_ok s \<Longrightarrow>
   \<exists>s' \<tau>. alerts_loop cp rows s = Inr ((), s') \<and> store_ok s'
     \<and> alerts s' = map (\<lambda>a. if a_id a \<in> firing_ids cp rows then deactivated (\<tau> (a_id a)) a else a)
                      (alerts s)
     \<and> (\<forall>i. clock s < \<tau> i)
     \<and> products s' = products s \<and> price_history s' = price_history s
     \<and> next_alert_id s' = next_alert_id s \<and> next_product_id s' = next_product_id s"
proof (induction rows arbitrary: s)
  case Nil
  then show ?case by (auto intro: exI [of _ "\<lambda>i. Suc (clock s)"])
next
  case (Cons r rs)
  show ?case
  proof (cases "cp \<le> target_price (row_alert r)")
    case False
    with Cons.IH [OF Cons.prems] show ?thesis by simp
  next
    case True
    define s1 where "s1 = state_of (sendPriceAlert r cp s)"
    define s2 where "s2 = snd (mark_triggered (a_id (row_alert r)) (tick s1))"
    have ok1: "store_ok s1"
      using Cons.prems by (simp add: s1_def store_ok_def)
    have ok2: "store_ok s2"
      using store_ok_tick [OF ok1] by (simp add: s2_def store_ok_def)
    have sp: "sendPriceAlert r cp s = Inr ((), s1)"
      unfolding s1_def by (rule sendPriceAlert_returns)
    have mq: "pool_query (mark_triggered (a_id (row_alert r))) s1 = Inr ((), s2)"
      unfolding s2_def pool_query_ok [OF ok1] by (simp add: mark_triggered_def)
    have unfold: "alerts_loop cp (r # rs) s = alerts_loop cp rs s2"
      using True by (simp add: sp mq)
    from Cons.IH [OF ok2] obtain s' \<tau> where
      run: "alerts_loop cp rs s2 = Inr ((), s')" and ok': "store_ok s'"
      and al: "alerts s' = map (\<lambda>a. if a_id a \<in> firing_ids cp rs then deactivated (\<tau> (a_id a)) a else a)
                      (alerts s2)"
      and tau: "\<forall>i. clock s2 < \<tau> i"
      and rest: "products s' = products s2" "price_history s' = price_history s2"
        "next_alert_id s' = next_alert_id s2" "next_product_id s' = next_product_id s2"
      by blast
    define \<tau>' where "\<tau>' = (\<lambda>i. if i \<in> firing_ids cp rs then \<tau> i else clock s2)"
    have c2: "clock s2 = Suc (clock s)" by (simp add: s2_def s1_def)
    have "alerts s' = map (\<lambda>a. if a_id a \<in> firing_ids cp (r # rs) then deactivated (\<tau>' (a_id a)) a else a)
                      (alerts s)"
    proof -
      have a2: "alerts s2 = map (\<lambda>a. if a_id a = a_id (row_alert r) then deactivated (clock s2) a else a)
                      (alerts s)"
        by (simp add: s2_def s1_def)
      show ?thesis
        unfolding al a2 map_map using True
        by (intro map_cong refl) (simp add: \<tau>'_def)
    qed
    moreover have "\<forall>i. clock s < \<tau>' i"
    proof
      fix i
      from tau have "clock s2 < \<tau> i" by simp
      with c2 show "clock s < \<tau>' i" by (simp add: \<tau>'_def)
    qed
    moreover have "products s' = products s" "price_history s' = price_history s"
        "next_alert_id s' = next_alert_id s" "next_product_id s' = next_product_id s"
      using rest by (simp_all add: s2_def s1_def)
    ultimately show ?thesis
      unfolding unfold run using ok'
      by (intro exI [of _ s'] exI [of _ \<tau>']) simp
  qed
qed

lemma state_of_simps [simp]:
  "state_of (Inl (e, s)) = s" "state_of (Inr (v, s)) = s"
  by (simp_all add: state_of_def)

lemma pool_query_cases:
  obtains (rejects) "query_rejects s" "pool_query stmt s = Inl (Store_failure, tick s)"
  | (runs) "\<not> query_rejects s" "pool_query stmt s = Inr (stmt (tick s))"
  by (cases "query_rejects s") (simp_all add: pool_query_def)

lemma alerts_loop_invariant:
  assumes "P s"
    and "\<And>r t. r \<in> set rows \<Longrightarrow> P t \<Longrightarrow> P (state_of (sendPriceAlert r cp t))"
    and "\<And>t. P t \<Longrightarrow> P (tick t)"
    and "\<And>r t. r \<in> set rows \<Longrightarrow> cp \<le> target_price (row_alert r) \<Longrightarrow> P t
           \<Longrightarrow> P (snd (mark_triggered (a_id (row_alert r)) t))"
  shows "P (state_of (alerts_loop cp rows s))"
  using assms
proof (induction rows arbitrary: s)
  case Nil
  then show ?case by simp
next
  case (Cons r rs)
  show ?case
  proof (cases "cp \<le> target_price (row_alert r)")
    case False
    then show ?thesis using Cons by simp
  next
    case True
    define s1 where "s1 = state_of (sendPriceAlert r cp s)"
    have sp: "sendPriceAlert r cp s = Inr ((), s1)"
      unfolding s1_def by (rule sendPriceAlert_returns)
    have p1: "P s1" unfolding s1_def using Cons.prems(1,2) by simp
    have p2: "P (tick s1)" using p1 Cons.prems(3) by simp
    show ?thesis
    proof (cases rule: pool_query_cases [of s1 "mark_triggered (a_id (row_alert r))"])
      case rejects
      then show ?thesis using True p2 by (simp add: sp)
    next
      case runs
      define s2 where "s2 = snd (mark_triggered (a_id (row_alert r)) (tick s1))"
      have p3: "P s2" unfolding s2_def using Cons.prems(4) [OF _ True p2] by simp
      have mq: "pool_query (mark_triggered (a_id (row_alert r))) s1 = Inr ((), s2)"
        unfolding s2_def runs(2) by (simp add: mark_triggered_def)
      have "P (state_of (alerts_loop cp rs s2))"
        using Cons.prems(2,3,4) by (rule Cons.IH [OF p3]) simp_all
      then show ?thesis using True by (simp add: sp mq)
    qed
  qed
qed

lemma select_active_alerts_tick [simp]:
  "fst (select_active_alerts i (tick s)) = fst (select_active_alerts i s)"
  "snd (select_active_alerts i s) = s"
  by (simp_all add: select_active_alerts_def)

lemma checkAlerts_returns:
  "checkAlerts i cp s = Inr (Undefined, state_of (checkAlerts i cp s))"
  by (simp add: checkAlerts_def split: sum.splits prod.splits)

lemma checkAlerts_invariant:
  assumes "P s"
    and "\<And>r t. P t \<Longrightarrow> P (state_of (sendPriceAlert r cp t))"
    and "\<And>t. P t \<Longrightarrow> P (tick t)"
    and "\<And>t. P t \<Longrightarrow> P (log_line Error_checking_alerts t)"
    and "\<And>r t. r \<in> set (fst (select_active_alerts i s)) \<Longrightarrow> cp \<le> target_price (row_alert r)
           \<Longrightarrow> P t \<Longrightarrow> P (snd (mark_triggered (a_id (row_alert r)) t))"
  shows "P (state_of (checkAlerts i cp s))"
proof (cases rule: pool_query_cases [of s "select_active_alerts i"])
  case rejects
  then show ?thesis using assms(1,3,4) by (simp add: checkAlerts_def checkAlerts_body_def)
next
  case runs
  define rows where "rows = fst (select_active_alerts i s)"
  have q: "pool_query (select_active_alerts i) s = Inr (rows, tick s)"
    unfolding runs(2) rows_def by (simp add: prod_eq_iff)
  have "P (state_of (alerts_loop cp rows (tick s)))"
  proof (rule alerts_loop_invariant [where P = P])
    show "P (tick s)" using assms(1,3) by simp
  qed (use assms in \<open>simp_all add: rows_def\<close>)
  then show ?thesis
    using assms(4)
    by (cases "alerts_loop cp rows (tick s)")
      (auto simp: checkAlerts_def checkAlerts_body_def q)
qed

lemma checkAlerts_keeps:
  "price_history (state_of (checkAlerts i cp s)) = price_history s"
  "products (state_of (checkAlerts i cp s)) = products s"
  "next_alert_id (state_of (checkAlerts i cp s)) = next_alert_id s"
  "next_product_id (state_of (checkAlerts i cp s)) = next_product_id s"
  "map a_id (alerts (state_of (checkAlerts i cp s))) = map a_id (alerts s)"
proof -
  show "price_history (state_of (checkAlerts i cp s)) = price_history s"
    by (rule checkAlerts_invariant [where P = "\<lambda>t. price_history t = price_history s"]) simp_all
  show "products (state_of (checkAlerts i cp s)) = products s"
    by (rule checkAlerts_invariant [where P = "\<lambda>t. products t = products s"]) simp_all
  show "next_alert_id (state_of (checkAlerts i cp s)) = next_alert_id s"
    by (rule checkAlerts_invariant [where P = "\<lambda>t. next_alert_id t = next_alert_id s"]) simp_all
  show "next_product_id (state_of (checkAlerts i cp s)) = next_product_id s"
    by (rule checkAlerts_invariant [where P = "\<lambda>t. next_product_id t = next_product_id s"]) simp_all
  show "map a_id (alerts (state_of (checkAlerts i cp s))) = map a_id (alerts s)"
    by (rule checkAlerts_invariant [where P = "\<lambda>t. map a_id (alerts t) = map a_id (alerts s)"])
      (simp_all add: comp_def if_distrib cong: if_cong)
qed

lemma update_product_price_fields [simp]:
  "price_history (snd (update_product_price v i s)) = price_history s"
  "alerts (snd (update_product_price v i s)) = alerts s"
  "clock (snd (update_product_price v i s)) = clock s"
  "db_faults (snd (update_product_price v i s)) = db_faults s"
  "mail_faults (snd (update_product_price v i s)) = mail_faults s"
  "outbox (snd (update_product_price v i s)) = outbox s"
  "console (snd (update_product_price v i s)) = console s"
  "next_alert_id (snd (update_product_price v i s)) = next_alert_id s"
  "next_product_id (snd (update_product_price v i s)) = next_product_id s"
  "products (snd (update_product_price v i s)) =
     map (\<lambda>p. if p_id p = i then p\<lparr>current_price := v, last_checked := clock s\<rparr> else p)
       (products s)"
  by (simp_all add: update_product_price_def)

lemma insert_price_history_fields [simp]:
  "products (snd (insert_price_history i v s)) = products s"
  "alerts (snd (insert_price_history i v s)) = alerts s"
  "clock (snd (insert_price_history i v s)) = clock s"
  "db_faults (snd (insert_price_history i v s)) = db_faults s"
  "mail_faults (snd (insert_price_history i v s)) = mail_faults s"
  "outbox (snd (insert_price_history i v s)) = outbox s"
  "console (snd (insert_price_history i v s)) = console s"
  "next_alert_id (snd (insert_price_history i v s)) = next_alert_id s"
  "next_product_id (snd (insert_price_history i v s)) = next_product_id s"
  "price_history (snd (insert_price_history i v s)) =
     price_history s @ [new_history_entry i v (clock s)]"
  by (simp_all add: insert_price_history_def)

lemma query_rejects_cong:
  "db_faults t = db_faults s \<Longrightarrow> query_rejects t = query_rejects s"
  by (simp add: query_rejects_def)

lemma query_rejects_after [simp]:
  "query_rejects (snd (update_product_price v i s)) = query_rejects s"
  "query_rejects (snd (insert_price_history i v s)) = query_rejects s"
  "query_rejects (snd (mark_triggered i s)) = query_rejects s"
  "query_rejects (log_line l s) = query_rejects s"
  "query_rejects (state_of (sendPriceAlert r cp s)) = query_rejects s"
  "query_rejects (tick (snd (update_product_price v i s))) = query_rejects (tick s)"
  by (simp_all add: query_rejects_def)

lemma pool_query_unit:
  fixes stmt :: "sys \<Rightarrow> unit \<times> sys"
  shows "pool_query stmt s =
     (if query_rejects s then Inl (Store_failure, tick s) else Inr ((), snd (stmt (tick s))))"
  by (simp add: pool_query_def prod_eq_iff)

text \<open>The ways through \<open>ingest\<close>.\<close>

lemma ingest_unchanged:
  "\<not> price_changed L v \<Longrightarrow>
   ingest i L v s =
     (if query_rejects s then Inl (Store_failure, tick s)
      else Inr ((), snd (update_product_price v i (tick s))))"
  by (simp add: ingest_def pool_query_unit)

lemma ingest_update_rejected:
  "query_rejects s \<Longrightarrow> ingest i L v s = Inl (Store_failure, tick s)"
  by (simp add: ingest_def pool_query_def)

lemma ingest_insert_rejected:
  "\<not> query_rejects s \<Longrightarrow> price_changed L v \<Longrightarrow> query_rejects (tick s) \<Longrightarrow>
   ingest i L v s = Inl (Store_failure, tick (snd (update_product_price v i (tick s))))"
  by (simp add: ingest_def pool_query_unit)

lemma ingest_changed:
  "\<not> query_rejects s \<Longrightarrow> price_changed L v \<Longrightarrow> \<not> query_rejects (tick s) \<Longrightarrow>
   ingest i L v s =
     Inr ((), state_of (checkAlerts i v
        (snd (insert_price_history i v (tick (snd (update_product_price v i (tick s))))))))"
proof -
  assume a: "\<not> query_rejects s" "price_changed L v" "\<not> query_rejects (tick s)"
  define s1 where "s1 = snd (update_product_price v i (tick s))"
  define s2 where "s2 = snd (insert_price_history i v (tick s1))"
  have q1: "pool_query (update_product_price v i) s = Inr ((), s1)"
    using a(1) by (simp add: pool_query_unit s1_def)
  have "\<not> query_rejects s1"
    using a(3) by (simp add: s1_def)
  then have q2: "pool_query (insert_price_history i v) s1 = Inr ((), s2)"
    by (simp add: pool_query_unit s2_def)
  obtain s3 where q3: "checkAlerts i v s2 = Inr (Undefined, s3)"
    using checkAlerts_returns by blast
  then have "s3 = state_of (checkAlerts i v s2)" by simp
  then show ?thesis
    unfolding s2_def [symmetric] s1_def [symmetric] using a(2) 
    by (simp add: ingest_def q1 q2 q3)
qed

subsection \<open>The rows that \<open>checkAlerts\<close> reads\<close>

lemma join_row_fields [simp]:
  "row_alert (join_row a p) = a" "row_title (join_row a p) = title p"
  "row_marketplace_url (join_row a p) = marketplace_url p"
  by (simp_all add: join_row_def)

lemma select_rows_mem:
  "r \<in> set (fst (select_active_alerts i s)) \<Longrightarrow>
   row_alert r \<in> set (alerts s) \<and> is_active (row_alert r) \<and> product_id (row_alert r) = i"
  by (auto simp: select_active_alerts_def)

lemma select_rows_unique:
  assumes "filter (\<lambda>p. p_id p = i) (products s) = [p]"
  shows "fst (select_active_alerts i s) =
     map (\<lambda>a. join_row a p) (filter (\<lambda>a. product_id a = i \<and> is_active a) (alerts s))"
proof -
  have eq: "map (\<lambda>a. map (join_row a) (filter (\<lambda>p. p_id p = product_id a) (products s)))
          (filter (\<lambda>a. product_id a = i \<and> is_active a) (alerts s))
      = map (\<lambda>a. [join_row a p]) (filter (\<lambda>a. product_id a = i \<and> is_active a) (alerts s))"
    using assms by (intro map_cong refl) simp
  show ?thesis
    unfolding select_active_alerts_def fst_conv eq by (simp add: concat_map_singleton)
qed

lemma distinct_ids_eq:
  "distinct (map a_id xs) \<Longrightarrow> a \<in> set xs \<Longrightarrow> b \<in> set xs \<Longrightarrow> a_id a = a_id b \<Longrightarrow> a = b"
  by (meson distinct_map inj_onD)

lemma firing_ids_mem:
  "(j \<in> firing_ids cp rows) = (\<exists>r \<in> set rows. cp \<le> target_price (row_alert r) \<and> a_id (row_alert r) = j)"
  by (auto simp: firing_ids_def)

lemma firing_ids_select:
  assumes "filter (\<lambda>p. p_id p = i) (products s) = [p]" "distinct (map a_id (alerts s))"
    "a \<in> set (alerts s)"
  shows "(a_id a \<in> firing_ids cp (fst (select_active_alerts i s)))
       = (product_id a = i \<and> is_active a \<and> cp \<le> target_price a)"
proof
  assume "a_id a \<in> firing_ids cp (fst (select_active_alerts i s))"
  then obtain r where r: "r \<in> set (fst (select_active_alerts i s))"
    "cp \<le> target_price (row_alert r)" "a_id (row_alert r) = a_id a"
    by (auto simp: firing_ids_mem)
  from select_rows_mem [OF r(1)] r(3) assms(2,3) have "row_alert r = a"
    by (auto intro: distinct_ids_eq)
  with select_rows_mem [OF r(1)] r(2)
  show "product_id a = i \<and> is_active a \<and> cp \<le> target_price a" by simp
next
  assume c: "product_id a = i \<and> is_active a \<and> cp \<le> target_price a"
  then have "join_row a p \<in> set (fst (select_active_alerts i s))"
    using assms(3) by (simp add: select_rows_unique [OF assms(1)])
  then show "a_id a \<in> firing_ids cp (fst (select_active_alerts i s))"
    using c by (auto simp: firing_ids_mem intro: bexI [of _ "join_row a p"])
qed


lemma store_ok_after [simp]:
  "store_ok (state_of (sendPriceAlert r cp s)) = store_ok s"
  "store_ok (snd (mark_triggered i s)) = store_ok s"
  "store_ok (log_line l s) = store_ok s"
  by (simp_all add: store_ok_def)

lemma mail_ok_after [simp]:
  "mail_ok (tick s) = mail_ok s"
  "mail_ok (snd (mark_triggered i s)) = mail_ok s"
  "mail_ok (log_line l s) = mail_ok s"
  by (simp_all add: mail_ok_def)

lemma mail_ok_sent: "mail_ok s \<Longrightarrow> mail_ok (state_of (sendPriceAlert r cp s))"
  by (cases "mail_faults s") (auto simp: mail_ok_def)

lemma mail_ok_outbox:
  "mail_ok s \<Longrightarrow> outbox (state_of (sendPriceAlert r cp s)) = outbox s @ [mailOptions r cp]"
  by (cases "mail_faults s") (auto simp: mail_ok_def sendPriceAlert_outbox)

lemma alerts_loop_step_ok:
  assumes "store_ok s" "cp \<le> target_price (row_alert r)"
  shows "alerts_loop cp (r # rs) s =
     alerts_loop cp rs
       (snd (mark_triggered (a_id (row_alert r)) (tick (state_of (sendPriceAlert r cp s)))))"
proof -
  define s1 where "s1 = state_of (sendPriceAlert r cp s)"
  have sp: "sendPriceAlert r cp s = Inr ((), s1)"
    unfolding s1_def by (rule sendPriceAlert_returns)
  have "\<not> query_rejects s1"
    using assms(1) by (simp add: s1_def store_ok_accepts)
  then show ?thesis
    unfolding s1_def [symmetric] using assms(2) by (simp add: sp pool_query_unit)
qed

lemma alerts_loop_returns_ok:
  "store_ok s \<Longrightarrow> alerts_loop cp rows s = Inr ((), state_of (alerts_loop cp rows s))"
  using alerts_loop_store_ok [of s cp rows] by auto

lemma alerts_loop_outbox:
  "store_ok s \<Longrightarrow> mail_ok s \<Longrightarrow>
   outbox (state_of (alerts_loop cp rows s)) =
     outbox s @ map (\<lambda>r. mailOptions r cp) (filter (\<lambda>r. cp \<le> target_price (row_alert r)) rows)"
proof (induction rows arbitrary: s)
  case Nil
  then show ?case by simp
next
  case (Cons r rs)
  show ?case
  proof (cases "cp \<le> target_price (row_alert r)")
    case False
    then show ?thesis using Cons by simp
  next
    case True
    define s2 where
      "s2 = snd (mark_triggered (a_id (row_alert r)) (tick (state_of (sendPriceAlert r cp s))))"
    have "store_ok s2" "mail_ok s2"
      using Cons.prems by (simp_all add: s2_def store_ok_tick mail_ok_sent)
    from Cons.IH [OF this]
    have "outbox (state_of (alerts_loop cp rs s2)) =
      outbox s2 @ map (\<lambda>r. mailOptions r cp) (filter (\<lambda>r. cp \<le> target_price (row_alert r)) rs)" .
    moreover have "outbox s2 = outbox s @ [mailOptions r cp]"
      using Cons.prems(2) by (simp add: s2_def mail_ok_outbox)
    ultimately show ?thesis
      unfolding alerts_loop_step_ok [OF Cons.prems(1) True] s2_def [symmetric]
      using True by simp
  qed
qed

lemma checkAlerts_unfold_ok:
  assumes "store_ok s"
  shows "checkAlerts i cp s =
     Inr (Undefined, state_of (alerts_loop cp (fst (select_active_alerts i s)) (tick s)))"
proof -
  have q: "pool_query (select_active_alerts i) s = Inr (fst (select_active_alerts i s), tick s)"
    using assms by (simp add: pool_query_ok prod_eq_iff)
  obtain s' where l: "alerts_loop cp (fst (select_active_alerts i s)) (tick s) = Inr ((), s')"
    using alerts_loop_returns_ok [OF store_ok_tick [OF assms]] by blast
  show ?thesis
    by (simp add: checkAlerts_def checkAlerts_body_def q l)
qed

lemma inactive_kept:
  assumes "distinct (map a_id (alerts s))" "a \<in> set (alerts s)" "\<not> is_active a"
  shows "a \<in> set (alerts (state_of (checkAlerts i cp s)))"
proof (rule checkAlerts_invariant [where P = "\<lambda>t. a \<in> set (alerts t)"])
  fix r and t :: sys
  assume r: "r \<in> set (fst (select_active_alerts i s))" and t: "a \<in> set (alerts t)"
  have "a_id (row_alert r) \<noteq> a_id a"
    using select_rows_mem [OF r] assms distinct_ids_eq [of "alerts s" "row_alert r" a] by auto
  then show "a \<in> set (alerts (snd (mark_triggered (a_id (row_alert r)) t)))"
    using t by (auto simp: image_iff intro: bexI [of _ a])
qed (use assms in simp_all)


lemma checkAlerts_store_ok:
  assumes "store_ok s" "distinct (map a_id (alerts s))" "filter (\<lambda>p. p_id p = i) (products s) = [p]"
  shows "\<exists>s' \<tau>. checkAlerts i cp s = Inr (Undefined, s')
     \<and> s' = state_of (alerts_loop cp (fst (select_active_alerts i s)) (tick s))
     \<and> alerts s' = map (\<lambda>a. if product_id a = i \<and> is_active a \<and> cp \<le> target_price a
                              then deactivated (\<tau> a) a else a) (alerts s)
     \<and> (\<forall>a. clock s < \<tau> a)"
proof -
  define rows where "rows = fst (select_active_alerts i s)"
  from alerts_loop_store_ok [OF store_ok_tick [OF assms(1)], of cp rows]
  obtain s' \<tau> where l: "alerts_loop cp rows (tick s) = Inr ((), s')"
    and al: "alerts s' = map (\<lambda>a. if a_id a \<in> firing_ids cp rows then deactivated (\<tau> (a_id a)) a else a)
                      (alerts (tick s))"
    and tau: "\<forall>j. clock (tick s) < \<tau> j"
    by blast
  have c: "checkAlerts i cp s = Inr (Undefined, s')"
    using checkAlerts_unfold_ok [OF assms(1), of i cp] l by (simp add: rows_def)
  have s': "s' = state_of (alerts_loop cp (fst (select_active_alerts i s)) (tick s))"
    using l by (simp add: rows_def)
  have "alerts s' = map (\<lambda>a. if product_id a = i \<and> is_active a \<and> cp \<le> target_price a
                              then deactivated (\<tau> (a_id a)) a else a) (alerts s)"
    unfolding al tick_fields
    by (rule map_cong [OF refl]) (simp add: rows_def firing_ids_select [OF assms(3,2)])
  moreover have "\<forall>a. clock s < \<tau> (a_id a)"
  proof
    fix a
    from tau have "clock (tick s) < \<tau> (a_id a)" by simp
    then show "clock s < \<tau> (a_id a)" by simp
  qed
  ultimately show ?thesis
    using c s' by (intro exI [of _ s'] exI [of _ "\<lambda>a. \<tau> (a_id a)"]) simp
qed

subsection \<open>Ingest appends to the history exactly when the price changed\<close>

text \<open>
  C1. For every listing row \<open>L\<close> and observed price: when the observed price equals the
  stored current price, the test for a change is false and the price history is left as
  it was (whether or not the store fails); when it differs, the test is true and, the
  \<^verbatim>\<open>UPDATE\<close> and the \<^verbatim>\<open>INSERT\<close> not rejecting, the ingest returns and the history
  has grown by exactly one entry, which carries the observed price.
\<close>

theorem ingest_appends_iff_changed:
  "(observed = current_price L \<longrightarrow>
      \<not> price_changed L observed
      \<and> price_history (state_of (ingest i L observed s)) = price_history s)
   \<and> (observed \<noteq> current_price L \<longrightarrow>
      price_changed L observed
      \<and> (\<not> query_rejects s \<and> \<not> query_rejects (tick s) \<longrightarrow>
          (\<exists>s'. ingest i L observed s = Inr ((), s')
             \<and> price_history s' =
                 price_history s @ [new_history_entry i observed (Suc (Suc (clock s)))])))"
proof (intro conjI impI)
  assume "observed = current_price L"
  then show "\<not> price_changed L observed" by (simp add: price_changed_def)
  then show "price_history (state_of (ingest i L observed s)) = price_history s"
    by (simp add: ingest_unchanged)
next
  assume "observed \<noteq> current_price L"
  then show ch: "price_changed L observed" by (simp add: price_changed_def)
  assume "\<not> query_rejects s \<and> \<not> query_rejects (tick s)"
  then show "\<exists>s'. ingest i L observed s = Inr ((), s')
             \<and> price_history s' =
                 price_history s @ [new_history_entry i observed (Suc (Suc (clock s)))]"
    using ch by (simp add: ingest_changed checkAlerts_keeps)
qed

theorem ingest_appends_iff_changed_witness:
  "\<not> query_rejects scenario_start \<and> \<not> query_rejects (tick scenario_start)
   \<and> (95 :: price) \<noteq> current_price listing_100
   \<and> price_changed listing_100 95
   \<and> (\<exists>s'. ingest 1 listing_100 95 scenario_start = Inr ((), s')
         \<and> price_history s' = price_history scenario_start @ [new_history_entry 1 95 2])
   \<and> (100 :: price) = current_price listing_100
   \<and> \<not> price_changed listing_100 100
   \<and> price_history (state_of (ingest 1 listing_100 100 scenario_start))
       = price_history scenario_start"
proof -
  have h: "\<not> query_rejects scenario_start" "\<not> query_rejects (tick scenario_start)"
    "(95 :: price) \<noteq> current_price listing_100" "(100 :: price) = current_price listing_100"
    "clock scenario_start = 0"
    by (simp_all add: query_rejects_def tick_def scenario_start_def listing_100_def)
  show ?thesis
    using h ingest_appends_iff_changed [of 95 listing_100 1 scenario_start]
      ingest_appends_iff_changed [of 100 listing_100 1 scenario_start]
    by (simp add: numeral_2_eq_2)
qed

subsection \<open>Which alerts fire\<close>

text \<open>
  C2. An evaluation of listing \<open>i\<close> at current price \<open>cp\<close>, with no fault in the store or
  the mail transport, alert identities distinct and the listing in the table: an alert
  is notified and deactivated if and only if it belongs to the listing, was active before
  and \<open>cp \<le> target_price\<close> (a price equal to the target fires); a fired alert is
  inactive afterwards with a triggered timestamp of this evaluation, every other alert is
  left as it was, and one mail goes out for each fired alert. No later evaluation, at any
  price and under any faults, touches an inactive alert: its timestamp is set once.
\<close>

theorem alert_fires_iff_at_or_below_target:
  assumes "store_ok s" "mail_ok s" "distinct (map a_id (alerts s))"
    "filter (\<lambda>p. p_id p = i) (products s) = [p]"
  shows "\<exists>s' \<tau>. checkAlerts i cp s = Inr (Undefined, s')
     \<and> alerts s' = map (\<lambda>a. if product_id a = i \<and> is_active a \<and> cp \<le> target_price a
                              then deactivated (\<tau> a) a else a) (alerts s)
     \<and> (\<forall>a. clock s < \<tau> a)
     \<and> outbox s' = outbox s @ map (\<lambda>a. mailOptions (join_row a p) cp)
          (filter (\<lambda>a. product_id a = i \<and> is_active a \<and> cp \<le> target_price a) (alerts s))
     \<and> (\<forall>a j v fs ms. a \<in> set (alerts s') \<and> \<not> is_active a \<longrightarrow>
           a \<in> set (alerts (state_of (checkAlerts j v (s'\<lparr>db_faults := fs, mail_faults := ms\<rparr>)))))"
proof -
  from checkAlerts_store_ok [OF assms(1,3,4), of cp]
  obtain s' \<tau> where c: "checkAlerts i cp s = Inr (Undefined, s')"
    and s': "s' = state_of (alerts_loop cp (fst (select_active_alerts i s)) (tick s))"
    and al: "alerts s' = map (\<lambda>a. if product_id a = i \<and> is_active a \<and> cp \<le> target_price a
                              then deactivated (\<tau> a) a else a) (alerts s)"
    and tau: "\<forall>a. clock s < \<tau> a"
    by blast
  have ob: "outbox s' = outbox s @ map (\<lambda>a. mailOptions (join_row a p) cp)
          (filter (\<lambda>a. product_id a = i \<and> is_active a \<and> cp \<le> target_price a) (alerts s))"
    unfolding s' using assms(1,2)
    by (simp add: alerts_loop_outbox store_ok_tick select_rows_unique [OF assms(4)]
        filter_map comp_def conj_assoc)
  have ids: "map a_id (alerts s') = map a_id (alerts s)"
    using checkAlerts_keeps(5) [of i cp s] c by simp
  have kept: "a \<in> set (alerts (state_of (checkAlerts j v (s'\<lparr>db_faults := fs, mail_faults := ms\<rparr>))))"
    if "a \<in> set (alerts s')" "\<not> is_active a" for a j v fs ms
    using that assms(3) ids by (intro inactive_kept) simp_all
  show ?thesis
    using c al tau ob kept by (intro exI [of _ s'] exI [of _ \<tau>]) blast
qed

theorem alert_fires_iff_at_or_below_target_witness:
  "store_ok scenario_start \<and> mail_ok scenario_start
   \<and> distinct (map a_id (alerts scenario_start))
   \<and> filter (\<lambda>p. p_id p = 1) (products scenario_start) = [listing_100]
   \<and> (\<exists>s' t. checkAlerts 1 90 scenario_start = Inr (Undefined, s')
         \<and> alerts s' = [deactivated t alert_90] \<and> 0 < t
         \<and> outbox s' = [mailOptions (join_row alert_90 listing_100) 90])
   \<and> (\<exists>s'. checkAlerts 1 91 scenario_start = Inr (Undefined, s')
         \<and> alerts s' = [alert_90] \<and> outbox s' = [])"
proof -
  have h: "store_ok scenario_start" "mail_ok scenario_start"
    "distinct (map a_id (alerts scenario_start))"
    "filter (\<lambda>p. p_id p = 1) (products scenario_start) = [listing_100]"
    by (simp_all add: store_ok_def mail_ok_def scenario_start_def listing_100_def)
  have f: "alerts scenario_start = [alert_90]" "outbox scenario_start = []"
    "clock scenario_start = 0" "product_id alert_90 = 1" "is_active alert_90"
    "target_price alert_90 = 90"
    by (simp_all add: scenario_start_def alert_90_def)
  from alert_fires_iff_at_or_below_target [OF h, of 90]
  have "\<exists>s' t. checkAlerts 1 90 scenario_start = Inr (Undefined, s')
         \<and> alerts s' = [deactivated t alert_90] \<and> 0 < t
         \<and> outbox s' = [mailOptions (join_row alert_90 listing_100) 90]"
    by (simp add: f) blast
  moreover from alert_fires_iff_at_or_below_target [OF h, of 91]
  have "\<exists>s'. checkAlerts 1 91 scenario_start = Inr (Undefined, s')
         \<and> alerts s' = [alert_90] \<and> outbox s' = []"
    by (simp add: f) blast
  ultimately show ?thesis using h by simp
qed

subsection \<open>A failed delivery does not keep an alert active\<close>

lemma deliveries_map:
  "deliveries fs (map f xs) = map (\<lambda>(x, b). (f x, b)) (deliveries fs xs)"
  by (induction xs arbitrary: fs) simp_all

lemma alerts_loop_mail:
  "store_ok s \<Longrightarrow>
   outbox (state_of (alerts_loop cp rows s)) =
     outbox s @ map (\<lambda>(r, failed). mailOptions r cp)
       (filter (\<lambda>(r, failed). \<not> failed)
          (deliveries (mail_faults s) (filter (\<lambda>r. cp \<le> target_price (row_alert r)) rows)))
   \<and> console (state_of (alerts_loop cp rows s)) =
     console s @ map (\<lambda>(r, failed). if failed then Error_sending_email
                                      else Alert_sent (user_email (row_alert r)))
       (deliveries (mail_faults s) (filter (\<lambda>r. cp \<le> target_price (row_alert r)) rows))"
proof (induction rows arbitrary: s)
  case Nil
  then show ?case by simp
next
  case (Cons r rs)
  show ?case
  proof (cases "cp \<le> target_price (row_alert r)")
    case False
    then show ?thesis using Cons by simp
  next
    case True
    define s2 where
      "s2 = snd (mark_triggered (a_id (row_alert r)) (tick (state_of (sendPriceAlert r cp s))))"
    have ok2: "store_ok s2"
      using Cons.prems by (simp add: s2_def store_ok_tick)
    have f2: "mail_faults s2 = tl (mail_faults s)"
      "outbox s2 = (if mail_faults s \<noteq> [] \<and> hd (mail_faults s) then outbox s
                    else outbox s @ [mailOptions r cp])"
      "console s2 = console s @ [if mail_faults s \<noteq> [] \<and> hd (mail_faults s)
                                 then Error_sending_email
                                 else Alert_sent (user_email (row_alert r))]"
      by (simp_all add: s2_def sendPriceAlert_outbox sendPriceAlert_console)
    show ?thesis
      unfolding alerts_loop_step_ok [OF Cons.prems(1) True] s2_def [symmetric]
      using True Cons.IH [OF ok2] by (simp add: f2)
  qed
qed

text \<open>
  C3. Whatever the mail transport does, the store accepting its statements: every alert
  that fires is deactivated and gets its triggered timestamp. The console shows one line
  for each fired alert, \<^verbatim>\<open>Error sending email\<close> where the delivery failed, and only the
  deliveries that did not fail reach the outbox: a failed delivery does not keep its
  alert active.
\<close>

theorem notify_failure_still_deactivates:
  assumes "store_ok s" "distinct (map a_id (alerts s))"
    "filter (\<lambda>p. p_id p = i) (products s) = [p]"
  shows "\<exists>s' \<tau>. checkAlerts i cp s = Inr (Undefined, s')
     \<and> alerts s' = map (\<lambda>a. if product_id a = i \<and> is_active a \<and> cp \<le> target_price a
                              then deactivated (\<tau> a) a else a) (alerts s)
     \<and> (\<forall>a. clock s < \<tau> a)
     \<and> console s' = console s @ map (\<lambda>(a, failed). if failed then Error_sending_email
                                                      else Alert_sent (user_email a))
          (deliveries (mail_faults s)
             (filter (\<lambda>a. product_id a = i \<and> is_active a \<and> cp \<le> target_price a) (alerts s)))
     \<and> outbox s' = outbox s @ map (\<lambda>(a, failed). mailOptions (join_row a p) cp)
          (filter (\<lambda>(a, failed). \<not> failed)
             (deliveries (mail_faults s)
                (filter (\<lambda>a. product_id a = i \<and> is_active a \<and> cp \<le> target_price a)
                   (alerts s))))"
proof -
  from checkAlerts_store_ok [OF assms, of cp]
  obtain s' \<tau> where c: "checkAlerts i cp s = Inr (Undefined, s')"
    and s': "s' = state_of (alerts_loop cp (fst (select_active_alerts i s)) (tick s))"
    and al: "alerts s' = map (\<lambda>a. if product_id a = i \<and> is_active a \<and> cp \<le> target_price a
                              then deactivated (\<tau> a) a else a) (alerts s)"
    and tau: "\<forall>a. clock s < \<tau> a"
    by blast
  have rows: "filter (\<lambda>r. cp \<le> target_price (row_alert r)) (fst (select_active_alerts i s))
      = map (\<lambda>a. join_row a p)
          (filter (\<lambda>a. product_id a = i \<and> is_active a \<and> cp \<le> target_price a) (alerts s))"
    by (simp add: select_rows_unique [OF assms(3)] filter_map comp_def conj_assoc)
  have m: "console s' = console s @ map (\<lambda>(a, failed). if failed then Error_sending_email
                                                      else Alert_sent (user_email a))
          (deliveries (mail_faults s)
             (filter (\<lambda>a. product_id a = i \<and> is_active a \<and> cp \<le> target_price a) (alerts s)))"
    "outbox s' = outbox s @ map (\<lambda>(a, failed). mailOptions (join_row a p) cp)
          (filter (\<lambda>(a, failed). \<not> failed)
             (deliveries (mail_faults s)
                (filter (\<lambda>a. product_id a = i \<and> is_active a \<and> cp \<le> target_price a)
                   (alerts s))))"
    unfolding s'
    using alerts_loop_mail [OF store_ok_tick [OF assms(1)], of cp "fst (select_active_alerts i s)"]
    by (simp_all add: rows deliveries_map filter_map comp_def case_prod_unfold)
  show ?thesis
    using c al tau m by (intro exI [of _ s'] exI [of _ \<tau>]) blast
qed

theorem notify_failure_still_deactivates_witness:
  "store_ok (scenario_start\<lparr>mail_faults := [True]\<rparr>)
   \<and> distinct (map a_id (alerts (scenario_start\<lparr>mail_faults := [True]\<rparr>)))
   \<and> filter (\<lambda>p. p_id p = 1) (products (scenario_start\<lparr>mail_faults := [True]\<rparr>)) = [listing_100]
   \<and> (\<exists>s' t. checkAlerts 1 90 (scenario_start\<lparr>mail_faults := [True]\<rparr>) = Inr (Undefined, s')
         \<and> alerts s' = [deactivated t alert_90] \<and> 0 < t
         \<and> console s' = [Error_sending_email] \<and> outbox s' = [])"
proof -
  define s where "s = scenario_start\<lparr>mail_faults := [True]\<rparr>"
  have h: "store_ok s" "distinct (map a_id (alerts s))"
    "filter (\<lambda>p. p_id p = 1) (products s) = [listing_100]"
    by (simp_all add: s_def store_ok_def scenario_start_def listing_100_def)
  have f: "alerts s = [alert_90]" "outbox s = []" "console s = []" "mail_faults s = [True]"
    "clock s = 0" "product_id alert_90 = 1" "is_active alert_90" "target_price alert_90 = 90"
    by (simp_all add: s_def scenario_start_def alert_90_def)
  from notify_failure_still_deactivates [OF h, of 90]
  have "\<exists>s' t. checkAlerts 1 90 s = Inr (Undefined, s')
         \<and> alerts s' = [deactivated t alert_90] \<and> 0 < t
         \<and> console s' = [Error_sending_email] \<and> outbox s' = []"
    by (simp add: f) blast
  then show ?thesis using h unfolding s_def by simp
qed

subsection \<open>A manual refresh that runs without a fault in the store\<close>

lemma alerts_loop_counters:
  "store_ok s \<Longrightarrow>
   mail_faults (state_of (alerts_loop cp rows s)) =
     drop (length (filter (\<lambda>r. cp \<le> target_price (row_alert r)) rows)) (mail_faults s)
   \<and> db_faults (state_of (alerts_loop cp rows s)) =
     drop (length (filter (\<lambda>r. cp \<le> target_price (row_alert r)) rows)) (db_faults s)
   \<and> clock (state_of (alerts_loop cp rows s)) =
     clock s + length (filter (\<lambda>r. cp \<le> target_price (row_alert r)) rows)"
proof (induction rows arbitrary: s)
  case Nil
  then show ?case by simp
next
  case (Cons r rs)
  show ?case
  proof (cases "cp \<le> target_price (row_alert r)")
    case False
    then show ?thesis using Cons by simp
  next
    case True
    define s2 where
      "s2 = snd (mark_triggered (a_id (row_alert r)) (tick (state_of (sendPriceAlert r cp s))))"
    have ok2: "store_ok s2"
      using Cons.prems by (simp add: s2_def store_ok_tick)
    have f2: "mail_faults s2 = tl (mail_faults s)" "db_faults s2 = tl (db_faults s)"
      "clock s2 = Suc (clock s)"
      by (simp_all add: s2_def)
    show ?thesis
      unfolding alerts_loop_step_ok [OF Cons.prems(1) True] s2_def [symmetric]
      using True Cons.IH [OF ok2] by (simp add: f2 drop_Suc)
  qed
qed

lemma filter_updated_rows:
  assumes "\<And>p. p_id (f p) = p_id p"
  shows "filter (\<lambda>p. p_id p = i) (map (\<lambda>p. if p_id p = i then f p else p) ps)
       = map f (filter (\<lambda>p. p_id p = i) ps)"
  by (induction ps) (simp_all add: assms)

lemma store_ok_drop: "store_ok s \<Longrightarrow> db_faults t = drop n (db_faults s) \<Longrightarrow> store_ok t"
  by (auto simp: store_ok_def dest: in_set_dropD)

lemma mail_ok_drop: "mail_ok s \<Longrightarrow> mail_faults t = drop n (mail_faults s) \<Longrightarrow> mail_ok t"
  by (auto simp: mail_ok_def dest: in_set_dropD)

lemma store_ok_statements [simp]:
  "store_ok (snd (update_product_price v i s)) = store_ok s"
  "store_ok (snd (insert_price_history i v s)) = store_ok s"
  by (simp_all add: store_ok_def)

text \<open>The manual refresh up to the call of \<open>ingest\<close>.\<close>

lemma check_product_reaches_ingest:
  assumes "\<not> query_rejects s" "filter (\<lambda>p. p_id p = i) (products s) = L # others"
    "observe (marketplace_url L) = Inr d"
  shows "check_product_with observe i s =
     (case ingest i L (ld_price d) (tick s) of
        Inl (e, s') \<Rightarrow> (Failed_to_check_product, log_line Error_checking_product s')
      | Inr (u, s') \<Rightarrow> (Product_updated (ld_price d), s'))"
  using assms
  by (simp add: check_product_with_def check_body_def pool_query_def select_product_def
      scrape_with_def split: sum.splits prod.splits)

lemma join_row_updated [simp]:
  "join_row a (p\<lparr>current_price := v, last_checked := t\<rparr>) = join_row a p"
  by (simp add: join_row_def)

lemma check_product_changed_ok:
  assumes ok: "store_ok s" and ids: "distinct (map a_id (alerts s))"
    and row: "filter (\<lambda>p. p_id p = i) (products s) = [L]"
    and obs: "observe (marketplace_url L) = Inr d" and v: "ld_price d = v"
    and ch: "v \<noteq> current_price L"
  shows "fst (check_product_with observe i s) = Product_updated v"
    "store_ok (snd (check_product_with observe i s))"
    "clock (snd (check_product_with observe i s)) = clock s + 4
         + length (filter (\<lambda>a. product_id a = i \<and> is_active a \<and> v \<le> target_price a) (alerts s))"
    "products (snd (check_product_with observe i s)) =
       map (\<lambda>p. if p_id p = i then p\<lparr>current_price := v, last_checked := clock s + 2\<rparr> else p)
         (products s)"
    "price_history (snd (check_product_with observe i s)) =
       price_history s @ [new_history_entry i v (clock s + 3)]"
    "\<exists>\<tau>. alerts (snd (check_product_with observe i s)) =
       map (\<lambda>a. if product_id a = i \<and> is_active a \<and> v \<le> target_price a
                 then deactivated (\<tau> a) a else a) (alerts s) \<and> (\<forall>a. clock s < \<tau> a)"
    "mail_faults (snd (check_product_with observe i s)) =
         drop (length (filter (\<lambda>a. product_id a = i \<and> is_active a \<and> v \<le> target_price a)
                 (alerts s))) (mail_faults s)"
    "outbox (snd (check_product_with observe i s)) =
       outbox s @ map (\<lambda>(a, failed). mailOptions (join_row a L) v)
          (filter (\<lambda>(a, failed). \<not> failed)
             (deliveries (mail_faults s)
                (filter (\<lambda>a. product_id a = i \<and> is_active a \<and> v \<le> target_price a)
                   (alerts s))))"
    "next_alert_id (snd (check_product_with observe i s)) = next_alert_id s"
proof -
  define s0 where "s0 = tick s"
  define sA where "sA = snd (update_product_price v i (tick s0))"
  define sB where "sB = snd (insert_price_history i v (tick sA))"
  define L' where "L' = L\<lparr>current_price := v, last_checked := clock (tick s0)\<rparr>"
  define rows where "rows = fst (select_active_alerts i sB)"
  define n where "n = length (filter (\<lambda>a. product_id a = i \<and> is_active a \<and> v \<le> target_price a)
                 (alerts s))"
  have ok0: "store_ok s0" "store_ok (tick s0)" "store_ok sA" "store_ok (tick sA)" "store_ok sB"
    "store_ok (tick sB)"
    using ok by (simp_all add: s0_def sA_def sB_def store_ok_tick)
  have fB: "alerts sB = alerts s" "clock sB = clock s + 3" "mail_faults sB = mail_faults s"
    "outbox sB = outbox s" "next_alert_id sB = next_alert_id s"
    "price_history sB = price_history s @ [new_history_entry i v (clock s + 3)]"
    "products sB = map (\<lambda>p. if p_id p = i
                                then p\<lparr>current_price := v, last_checked := clock s + 2\<rparr> else p)
                         (products s)"
    by (simp_all add: s0_def sA_def sB_def numeral_3_eq_3)
  have rowB: "filter (\<lambda>p. p_id p = i) (products sB) = [L']"
    unfolding fB by (simp add: filter_updated_rows row L'_def s0_def)
  have ing: "ingest i L v s0 = Inr ((), state_of (checkAlerts i v sB))"
    unfolding sB_def sA_def
    using ok0 ch by (intro ingest_changed) (simp_all add: store_ok_accepts price_changed_def)
  have chk: "check_product_with observe i s = (Product_updated v, state_of (checkAlerts i v sB))"
    using check_product_reaches_ingest [of s i L "[]" observe d] store_ok_accepts [OF ok] row obs
    by (simp add: v ing s0_def [symmetric])
  from checkAlerts_store_ok [OF ok0(5) _ rowB, of v] ids
  obtain s' \<tau> where c: "checkAlerts i v sB = Inr (Undefined, s')"
    and s': "s' = state_of (alerts_loop v rows (tick sB))"
    and al: "alerts s' = map (\<lambda>a. if product_id a = i \<and> is_active a \<and> v \<le> target_price a
                              then deactivated (\<tau> a) a else a) (alerts s)"
    and tau: "\<forall>a. clock sB < \<tau> a"
    unfolding fB rows_def by blast
  have firing: "filter (\<lambda>r. v \<le> target_price (row_alert r)) rows
      = map (\<lambda>a. join_row a L)
          (filter (\<lambda>a. product_id a = i \<and> is_active a \<and> v \<le> target_price a) (alerts s))"
    unfolding rows_def
    by (simp add: select_rows_unique [OF rowB] fB filter_map comp_def conj_assoc L'_def)
  have cnt: "mail_faults s' = drop n (mail_faults s)" "db_faults s' = drop n (db_faults (tick sB))"
    "clock s' = clock s + 4 + n"
    unfolding s' using alerts_loop_counters [OF ok0(6), of v rows]
    by (simp_all add: firing n_def fB)
  have ob: "outbox s' = outbox s @ map (\<lambda>(a, failed). mailOptions (join_row a L) v)
          (filter (\<lambda>(a, failed). \<not> failed)
             (deliveries (mail_faults s)
                (filter (\<lambda>a. product_id a = i \<and> is_active a \<and> v \<le> target_price a)
                   (alerts s))))"
    unfolding s' using alerts_loop_mail [OF ok0(6), of v rows]
    by (simp add: firing fB deliveries_map filter_map comp_def case_prod_unfold)
  have keep: "products s' = products sB" "price_history s' = price_history sB"
    "next_alert_id s' = next_alert_id sB"
    using checkAlerts_keeps(1,2,3) [of i v sB] c by simp_all
  have ok': "store_ok s'"
    using store_ok_drop [OF ok0(6) cnt(2)] .
  have tau': "\<forall>a. clock s < \<tau> a"
  proof
    fix a
    from tau have "clock sB < \<tau> a" by simp
    then show "clock s < \<tau> a" by (simp add: fB)
  qed
  have res: "check_product_with observe i s = (Product_updated v, s')"
    using chk c by simp
  show "fst (check_product_with observe i s) = Product_updated v"
    by (simp add: res)
  show "store_ok (snd (check_product_with observe i s))"
    using ok' by (simp add: res)
  show "clock (snd (check_product_with observe i s)) = clock s + 4
         + length (filter (\<lambda>a. product_id a = i \<and> is_active a \<and> v \<le> target_price a) (alerts s))"
    using cnt(3) by (simp add: res n_def)
  show "products (snd (check_product_with observe i s)) =
       map (\<lambda>p. if p_id p = i then p\<lparr>current_price := v, last_checked := clock s + 2\<rparr> else p)
         (products s)"
    using keep(1) fB(7) by (simp add: res)
  show "price_history (snd (check_product_with observe i s)) =
       price_history s @ [new_history_entry i v (clock s + 3)]"
    using keep(2) fB(6) by (simp add: res)
  show "\<exists>\<tau>. alerts (snd (check_product_with observe i s)) =
       map (\<lambda>a. if product_id a = i \<and> is_active a \<and> v \<le> target_price a
                 then deactivated (\<tau> a) a else a) (alerts s) \<and> (\<forall>a. clock s < \<tau> a)"
    unfolding res snd_conv using al tau' by (intro exI [of _ \<tau>] conjI)
  show "mail_faults (snd (check_product_with observe i s)) =
         drop (length (filter (\<lambda>a. product_id a = i \<and> is_active a \<and> v \<le> target_price a)
                 (alerts s))) (mail_faults s)"
    using cnt(1) by (simp add: res n_def)
  show "outbox (snd (check_product_with observe i s)) =
       outbox s @ map (\<lambda>(a, failed). mailOptions (join_row a L) v)
          (filter (\<lambda>(a, failed). \<not> failed)
             (deliveries (mail_faults s)
                (filter (\<lambda>a. product_id a = i \<and> is_active a \<and> v \<le> target_price a)
                   (alerts s))))"
    using ob by (simp add: res)
  show "next_alert_id (snd (check_product_with observe i s)) = next_alert_id s"
    using keep(3) fB(5) by (simp add: res)
qed

subsection \<open>The scenario: 100, then 95, 90 and 85, with an alert at 90\<close>

lemma match_123: "match_item ''https://www.facebook.com/marketplace/item/123'' = Some ''123''"
  by (simp add: starts_with_def is_digit_def)

lemma priced_123:
  "\<exists>d. priced v ''https://www.facebook.com/marketplace/item/123'' = Inr d \<and> ld_price d = v"
  unfolding priced_def mock_listing_def match_123 by simp

lemma scenario_start_fields:
  "products scenario_start = [listing_100]"
  "price_history scenario_start = [new_history_entry 1 100 0]"
  "alerts scenario_start = [alert_90]" "clock scenario_start = 0"
  "db_faults scenario_start = []" "mail_faults scenario_start = []"
  "outbox scenario_start = []" "console scenario_start = []"
  "next_alert_id scenario_start = 2"
  by (simp_all add: scenario_start_def)

lemma example_rows:
  "p_id listing_100 = 1" "current_price listing_100 = 100"
  "marketplace_url listing_100 = ''https://www.facebook.com/marketplace/item/123''"
  "a_id alert_90 = 1" "product_id alert_90 = 1" "is_active alert_90"
  "target_price alert_90 = 90" "triggered_at alert_90 = None"
  by (simp_all add: listing_100_def alert_90_def)

lemma scenario_step_95:
  "store_ok after_95" "clock after_95 = 4" "mail_faults after_95 = []"
  "products after_95 = [listing_100\<lparr>current_price := 95, last_checked := 2\<rparr>]"
  "price_history after_95 = [new_history_entry 1 100 0, new_history_entry 1 95 3]"
  "alerts after_95 = [alert_90]" "outbox after_95 = []"
proof -
  obtain d where d: "priced 95 (marketplace_url listing_100) = Inr d" "ld_price d = 95"
    using priced_123 [of 95] by (auto simp: example_rows)
  have h: "store_ok scenario_start" "distinct (map a_id (alerts scenario_start))"
    "filter (\<lambda>p. p_id p = 1) (products scenario_start) = [listing_100]"
    "95 \<noteq> current_price listing_100"
    by (simp_all add: store_ok_def scenario_start_fields example_rows)
  note f = check_product_changed_ok [where observe = "priced 95", OF h(1,2,3) d h(4),
      folded after_95_def]
  show "store_ok after_95" by (rule f(2))
  show "clock after_95 = 4" using f(3) by (simp add: scenario_start_fields example_rows)
  show "mail_faults after_95 = []" using f(7) by (simp add: scenario_start_fields)
  show "products after_95 = [listing_100\<lparr>current_price := 95, last_checked := 2\<rparr>]"
    using f(4) by (simp add: scenario_start_fields example_rows)
  show "price_history after_95 = [new_history_entry 1 100 0, new_history_entry 1 95 3]"
    using f(5) by (simp add: scenario_start_fields)
  show "alerts after_95 = [alert_90]"
    using f(6) by (auto simp: scenario_start_fields example_rows)
  show "outbox after_95 = []"
    using f(8) by (simp add: scenario_start_fields example_rows)
qed

lemma scenario_step_90:
  "store_ok after_90" "clock after_90 = 9" "mail_faults after_90 = []"
  "products after_90 = [listing_100\<lparr>current_price := 90, last_checked := 6\<rparr>]"
  "price_history after_90 =
     [new_history_entry 1 100 0, new_history_entry 1 95 3, new_history_entry 1 90 7]"
  "\<exists>t. alerts after_90 = [deactivated t alert_90] \<and> 4 < t"
  "outbox after_90 = [mailOptions (join_row alert_90 listing_100) 90]"
proof -
  define L where "L = listing_100\<lparr>current_price := 95, last_checked := 2\<rparr>"
  have L: "p_id L = 1" "current_price L = 95" "marketplace_url L = marketplace_url listing_100"
    "join_row alert_90 L = join_row alert_90 listing_100"
    "L\<lparr>current_price := 90, last_checked := 6\<rparr>
       = listing_100\<lparr>current_price := 90, last_checked := 6\<rparr>"
    by (simp_all add: L_def example_rows)
  obtain d where d: "priced 90 (marketplace_url L) = Inr d" "ld_price d = 90"
    using priced_123 [of 90] by (auto simp: example_rows L)
  have h: "store_ok after_95" "distinct (map a_id (alerts after_95))"
    "filter (\<lambda>p. p_id p = 1) (products after_95) = [L]"
    "90 \<noteq> current_price L"
    by (simp_all add: scenario_step_95 L_def example_rows)
  note f = check_product_changed_ok [where observe = "priced 90", OF h(1,2,3) d h(4),
      folded after_90_def]
  show "store_ok after_90" by (rule f(2))
  show "clock after_90 = 9" using f(3) by (simp add: scenario_step_95 example_rows)
  show "mail_faults after_90 = []" using f(7) by (simp add: scenario_step_95)
  show "products after_90 = [listing_100\<lparr>current_price := 90, last_checked := 6\<rparr>]"
    using f(4) by (simp add: scenario_step_95 L L_def [symmetric])
  show "price_history after_90 =
     [new_history_entry 1 100 0, new_history_entry 1 95 3, new_history_entry 1 90 7]"
    using f(5) by (simp add: scenario_step_95)
  show "\<exists>t. alerts after_90 = [deactivated t alert_90] \<and> 4 < t"
    using f(6) by (auto simp: scenario_step_95 example_rows)
  show "outbox after_90 = [mailOptions (join_row alert_90 listing_100) 90]"
    using f(8) by (simp add: scenario_step_95 example_rows L)
qed

lemma scenario_step_85:
  "price_history after_85 =
     [new_history_entry 1 100 0, new_history_entry 1 95 3, new_history_entry 1 90 7,
      new_history_entry 1 85 12]"
  "alerts after_85 = alerts after_90" "outbox after_85 = outbox after_90"
  "fst (select_active_alerts 1 after_90) = []"
proof -
  define L where "L = listing_100\<lparr>current_price := 90, last_checked := 6\<rparr>"
  have L: "p_id L = 1" "current_price L = 90" "marketplace_url L = marketplace_url listing_100"
    by (simp_all add: L_def example_rows)
  obtain t where al: "alerts after_90 = [deactivated t alert_90]"
    using scenario_step_90(6) by blast
  have na: "\<not> is_active (deactivated t alert_90)" by (simp add: deactivated_def)
  obtain d where d: "priced 85 (marketplace_url L) = Inr d" "ld_price d = 85"
    using priced_123 [of 85] by (auto simp: example_rows L)
  have h: "store_ok after_90" "distinct (map a_id (alerts after_90))"
    "filter (\<lambda>p. p_id p = 1) (products after_90) = [L]"
    "85 \<noteq> current_price L"
    by (simp_all add: scenario_step_90 al L_def example_rows)
  note f = check_product_changed_ok [where observe = "priced 85", OF h(1,2,3) d h(4),
      folded after_85_def]
  show "price_history after_85 =
     [new_history_entry 1 100 0, new_history_entry 1 95 3, new_history_entry 1 90 7,
      new_history_entry 1 85 12]"
    using f(5) by (simp add: scenario_step_90)
  show "alerts after_85 = alerts after_90"
    using f(6) by (auto simp: al na)
  show "outbox after_85 = outbox after_90"
    using f(8) by (simp add: al na)
  show "fst (select_active_alerts 1 after_90) = []"
    by (simp add: select_active_alerts_def al na)
qed

text \<open>
  C4, as stated, fails at its first step: the listing is stored at 100, so an observed 95
  is a changed price and the refresh appends a history entry for it.
\<close>

theorem scenario_ingest_95_appends_counterexample:
  "current_price listing_100 = 100
   \<and> price_history scenario_start = [new_history_entry 1 100 0]
   \<and> price_history (snd (check_product_with (priced 95) 1 scenario_start)) =
       [new_history_entry 1 100 0, new_history_entry 1 95 3]"
  using scenario_step_95(5)
  by (simp add: after_95_def scenario_start_fields example_rows)

text \<open>
  C4, amended. From a listing at 100 with one active alert at 90: the refresh that
  observes 95 appends a history entry with 95 and fires no alert; the next, observing 90,
  appends an entry with 90, sends the mail and leaves the alert inactive with a
  timestamp; the next, observing 85, appends an entry with 85, reads no active alert,
  and leaves alerts and outbox as they were.
\<close>

theorem scenario_three_ingests:
  "price_history after_95 = price_history scenario_start @ [new_history_entry 1 95 3]
   \<and> alerts after_95 = [alert_90] \<and> outbox after_95 = []
   \<and> price_history after_90 = price_history after_95 @ [new_history_entry 1 90 7]
   \<and> (\<exists>t. alerts after_90 = [deactivated t alert_90])
   \<and> outbox after_90 = [mailOptions (join_row alert_90 listing_100) 90]
   \<and> price_history after_85 = price_history after_90 @ [new_history_entry 1 85 12]
   \<and> fst (select_active_alerts 1 after_90) = []
   \<and> alerts after_85 = alerts after_90 \<and> outbox after_85 = outbox after_90"
proof -
  from scenario_step_90(6) have "\<exists>t. alerts after_90 = [deactivated t alert_90]" by blast
  moreover have "fst (select_active_alerts 1 after_90) = []"
    by (rule scenario_step_85(4))
  ultimately show ?thesis
    unfolding scenario_step_85(1,2,3)
    by (simp add: scenario_step_95 scenario_step_90(1-5,7) scenario_start_fields
        del: One_nat_def)
qed

subsection \<open>What the evaluation returns, and what the mail transport cannot change\<close>

lemma alerts_loop_step:
  assumes "cp \<le> target_price (row_alert r)"
  shows "alerts_loop cp (r # rs) s =
     (if query_rejects s then Inl (Store_failure, tick (state_of (sendPriceAlert r cp s)))
      else alerts_loop cp rs
        (snd (mark_triggered (a_id (row_alert r)) (tick (state_of (sendPriceAlert r cp s))))))"
proof -
  define s1 where "s1 = state_of (sendPriceAlert r cp s)"
  have sp: "sendPriceAlert r cp s = Inr ((), s1)"
    unfolding s1_def by (rule sendPriceAlert_returns)
  have "query_rejects s1 = query_rejects s" by (simp add: s1_def)
  then show ?thesis
    unfolding s1_def [symmetric] using assms by (simp add: sp pool_query_unit)
qed

lemma alerts_loop_mail_independent:
  assumes "alerts t = alerts s" "db_faults t = db_faults s" "clock t = clock s"
  shows "alerts (state_of (alerts_loop cp rows t)) = alerts (state_of (alerts_loop cp rows s))"
  using assms
proof (induction rows arbitrary: s t)
  case Nil
  then show ?case by simp
next
  case (Cons r rs)
  show ?case
  proof (cases "cp \<le> target_price (row_alert r)")
    case False
    then show ?thesis using Cons.IH [OF Cons.prems] by simp
  next
    case True
    define s2 where
      "s2 = snd (mark_triggered (a_id (row_alert r)) (tick (state_of (sendPriceAlert r cp s))))"
    define t2 where
      "t2 = snd (mark_triggered (a_id (row_alert r)) (tick (state_of (sendPriceAlert r cp t))))"
    have q: "query_rejects t = query_rejects s"
      using Cons.prems(2) by (rule query_rejects_cong)
    have "alerts t2 = alerts s2" "db_faults t2 = db_faults s2" "clock t2 = clock s2"
      using Cons.prems by (simp_all add: s2_def t2_def)
    then have "alerts (state_of (alerts_loop cp rs t2)) = alerts (state_of (alerts_loop cp rs s2))"
      by (rule Cons.IH)
    then show ?thesis
      unfolding alerts_loop_step [OF True] s2_def [symmetric] t2_def [symmetric]
      using Cons.prems(1) by (simp add: q)
  qed
qed

lemma checkAlerts_alerts_body:
  "alerts (state_of (checkAlerts i cp s)) = alerts (state_of (checkAlerts_body i cp s))"
  by (simp add: checkAlerts_def split: sum.splits prod.splits)

lemma checkAlerts_body_unfold:
  "checkAlerts_body i cp s =
     (if query_rejects s then Inl (Store_failure, tick s)
      else alerts_loop cp (fst (select_active_alerts i s)) (tick s))"
  by (simp add: checkAlerts_body_def pool_query_def select_active_alerts_def)

text \<open>
  C5, as stated, fails: \<^verbatim>\<open>checkAlerts\<close> has no \<^verbatim>\<open>return\<close> statement. In the example the
  alert at 90 fires at price 90 (the mail goes out and the alert is deactivated), and the
  value returned is \<^verbatim>\<open>undefined\<close>, not a list that holds the alert.
\<close>

theorem checkAlerts_returns_no_list_counterexample:
  "returned (checkAlerts 1 90 scenario_start) = Some Undefined
   \<and> returned (checkAlerts 1 90 scenario_start) \<noteq> Some (Array [join_row alert_90 listing_100])
   \<and> map is_active (alerts scenario_start) = [True]
   \<and> map is_active (alerts (state_of (checkAlerts 1 90 scenario_start))) = [False]
   \<and> outbox (state_of (checkAlerts 1 90 scenario_start)) =
       [mailOptions (join_row alert_90 listing_100) 90]"
proof -
  have h: "store_ok scenario_start" "distinct (map a_id (alerts scenario_start))"
    "filter (\<lambda>p. p_id p = 1) (products scenario_start) = [listing_100]"
    "mail_ok (tick scenario_start)"
    by (simp_all add: store_ok_def mail_ok_def scenario_start_fields example_rows)
  from checkAlerts_store_ok [OF h(1,2,3), of 90]
  obtain s' \<tau> where c: "checkAlerts 1 90 scenario_start = Inr (Undefined, s')"
    and s': "s' = state_of (alerts_loop 90 (fst (select_active_alerts 1 scenario_start))
                    (tick scenario_start))"
    and al: "alerts s' = map (\<lambda>a. if product_id a = 1 \<and> is_active a \<and> 90 \<le> target_price a
                              then deactivated (\<tau> a) a else a) (alerts scenario_start)"
    by blast
  have ob: "outbox s' = [mailOptions (join_row alert_90 listing_100) 90]"
    unfolding s' alerts_loop_outbox [OF store_ok_tick [OF h(1)] h(4)] select_rows_unique [OF h(3)]
    by (simp add: scenario_start_fields example_rows)
  show ?thesis
    unfolding c returned_def using al ob
    by (simp add: scenario_start_fields example_rows deactivated_def)
qed

text \<open>
  C5, amended. On every input \<^verbatim>\<open>checkAlerts\<close> returns, and what it returns is
  \<^verbatim>\<open>undefined\<close>, never a list. Which alerts fired shows in the store, and there the
  outcome of the deliveries makes no difference: the table of alerts after the
  evaluation is the same for every script of mail failures.
\<close>

theorem checkAlerts_returns_undefined:
  "returned (checkAlerts i cp s) = Some Undefined
   \<and> alerts (state_of (checkAlerts i cp (s\<lparr>mail_faults := ms\<rparr>)))
       = alerts (state_of (checkAlerts i cp s))"
proof
  show "returned (checkAlerts i cp s) = Some Undefined"
    by (subst checkAlerts_returns) (simp add: returned_def)
  have "alerts (state_of (alerts_loop cp rows (tick (s\<lparr>mail_faults := ms\<rparr>))))
      = alerts (state_of (alerts_loop cp rows (tick s)))" for rows
    by (rule alerts_loop_mail_independent) (simp_all add: tick_def)
  moreover have "fst (select_active_alerts i (s\<lparr>mail_faults := ms\<rparr>)) = fst (select_active_alerts i s)"
    by (simp add: select_active_alerts_def)
  moreover have "query_rejects (s\<lparr>mail_faults := ms\<rparr>) = query_rejects s"
    by (simp add: query_rejects_def)
  ultimately show "alerts (state_of (checkAlerts i cp (s\<lparr>mail_faults := ms\<rparr>)))
       = alerts (state_of (checkAlerts i cp s))"
    by (simp add: checkAlerts_alerts_body checkAlerts_body_unfold)
qed

subsection \<open>Failures while the alerts of one listing are processed\<close>

lemma checkAlerts_state:
  "state_of (checkAlerts i cp s) =
     (case checkAlerts_body i cp s of
        Inl (e, s') \<Rightarrow> log_line Error_checking_alerts s'
      | Inr (u, s') \<Rightarrow> s')"
  by (simp add: checkAlerts_def split: sum.splits prod.splits)

lemma alerts_loop_filter:
  "alerts_loop cp rows s = alerts_loop cp (filter (\<lambda>r. cp \<le> target_price (row_alert r)) rows) s"
proof (induction rows arbitrary: s)
  case Nil
  show ?case by simp
next
  case (Cons r rs)
  show ?case
  proof (cases "cp \<le> target_price (row_alert r)")
    case False
    then show ?thesis using Cons.IH [of s] by simp
  next
    case True
    have e: "filter (\<lambda>r. cp \<le> target_price (row_alert r)) (r # rs)
        = r # filter (\<lambda>r. cp \<le> target_price (row_alert r)) rs"
      using True by simp
    show ?thesis
      unfolding e alerts_loop_step [OF True] using Cons.IH by simp
  qed
qed

lemma two_alerts_fields:
  "products two_alerts = [listing_100]" "alerts two_alerts = [alert_90, alert_95]"
  "db_faults two_alerts = [False, True]" "mail_faults two_alerts = []"
  "outbox two_alerts = []" "console two_alerts = []" "clock two_alerts = 0"
  by (simp_all add: two_alerts_def scenario_start_def)

lemma alert_95_fields:
  "a_id alert_95 = 2" "product_id alert_95 = 1" "is_active alert_95" "target_price alert_95 = 95"
  by (simp_all add: alert_95_def)

lemma checkAlerts_deactivation_rejected:
  assumes "\<not> query_rejects s" "query_rejects (tick s)"
    "filter (\<lambda>r. cp \<le> target_price (row_alert r)) (fst (select_active_alerts i s)) = r # rs"
  shows "state_of (checkAlerts i cp s) =
     log_line Error_checking_alerts (tick (state_of (sendPriceAlert r cp (tick s))))"
proof -
  have "r \<in> set (filter (\<lambda>r. cp \<le> target_price (row_alert r)) (fst (select_active_alerts i s)))"
    unfolding assms(3) by simp
  then have f: "cp \<le> target_price (row_alert r)" by simp
  have "checkAlerts_body i cp s = alerts_loop cp (r # rs) (tick s)"
    using assms(1) unfolding checkAlerts_body_unfold
    by (subst alerts_loop_filter) (simp add: assms(3))
  also have "\<dots> = Inl (Store_failure, tick (state_of (sendPriceAlert r cp (tick s))))"
    unfolding alerts_loop_step [OF f] using assms(2) by simp
  finally show ?thesis by (simp add: checkAlerts_state)
qed

text \<open>
  C6, as stated, fails for a failure of the store. Two active alerts, at 90 and at 95, and
  a price of 85 that is below both: the deactivation of the first alert is rejected, the
  one \<^verbatim>\<open>try\<close> block around the loop ends the evaluation, and the second alert, for
  which no fault was due, is neither notified nor deactivated.
\<close>

theorem second_alert_skipped_counterexample:
  "db_faults two_alerts = [False, True]
   \<and> alerts two_alerts = [alert_90, alert_95]
   \<and> product_id alert_95 = 1 \<and> is_active alert_95 \<and> 85 \<le> target_price alert_95
   \<and> db_faults (state_of (checkAlerts 1 85 two_alerts)) = []
   \<and> alerts (state_of (checkAlerts 1 85 two_alerts)) = [alert_90, alert_95]
   \<and> outbox (state_of (checkAlerts 1 85 two_alerts)) =
       [mailOptions (join_row alert_90 listing_100) 85]"
proof -
  have h: "\<not> query_rejects two_alerts" "query_rejects (tick two_alerts)"
    by (simp_all add: query_rejects_def two_alerts_fields)
  have "filter (\<lambda>p. p_id p = 1) (products two_alerts) = [listing_100]"
    by (simp add: two_alerts_fields example_rows)
  note rows = select_rows_unique [OF this]
  have f: "filter (\<lambda>r. 85 \<le> target_price (row_alert r)) (fst (select_active_alerts 1 two_alerts))
      = join_row alert_90 listing_100 # [join_row alert_95 listing_100]"
    unfolding rows by (simp add: two_alerts_fields example_rows alert_95_fields)
  show ?thesis
    unfolding checkAlerts_deactivation_rejected [OF h f]
    by (simp add: two_alerts_fields alert_95_fields sendPriceAlert_outbox)
qed

text \<open>
  C6, amended. The alerts read for a listing are processed one after the other inside
  one \<^verbatim>\<open>try\<close> block. For an alert that fires: if the store accepts the deactivation,
  the alert is deactivated and the loop goes on with the remaining alerts, whether the
  notification was delivered or not; if the store rejects the deactivation, the loop
  ends there with that failure, in a state that the remaining alerts have no part in:
  the table of alerts is as it was, the one notification attempted is that of this
  alert, and nothing more is sent, logged or written.
\<close>

theorem alerts_loop_failure_isolation:
  assumes "cp \<le> target_price (row_alert r)"
  shows "(\<not> query_rejects s \<longrightarrow>
            (\<exists>s2. alerts_loop cp (r # rs) s = alerts_loop cp rs s2
               \<and> alerts s2 = map (\<lambda>a. if a_id a = a_id (row_alert r)
                                        then deactivated (Suc (clock s)) a else a) (alerts s)
               \<and> console s2 = console s @ [if mail_faults s \<noteq> [] \<and> hd (mail_faults s)
                                           then Error_sending_email
                                           else Alert_sent (user_email (row_alert r))]
               \<and> outbox s2 = (if mail_faults s \<noteq> [] \<and> hd (mail_faults s) then outbox s
                              else outbox s @ [mailOptions r cp])
               \<and> db_faults s2 = tl (db_faults s) \<and> mail_faults s2 = tl (mail_faults s)
               \<and> clock s2 = Suc (clock s)
               \<and> products s2 = products s \<and> price_history s2 = price_history s
               \<and> next_alert_id s2 = next_alert_id s
               \<and> next_product_id s2 = next_product_id s))
       \<and> (query_rejects s \<longrightarrow>
            (\<exists>s'. alerts_loop cp (r # rs) s = Inl (Store_failure, s')
               \<and> alerts s' = alerts s
               \<and> outbox s' = (if mail_faults s \<noteq> [] \<and> hd (mail_faults s) then outbox s
                              else outbox s @ [mailOptions r cp])
               \<and> console s' = console s @ [if mail_faults s \<noteq> [] \<and> hd (mail_faults s)
                                           then Error_sending_email
                                           else Alert_sent (user_email (row_alert r))]
               \<and> mail_faults s' = tl (mail_faults s) \<and> db_faults s' = tl (db_faults s)
               \<and> clock s' = Suc (clock s)
               \<and> products s' = products s \<and> price_history s' = price_history s
               \<and> next_alert_id s' = next_alert_id s
               \<and> next_product_id s' = next_product_id s)
            \<and> alerts_loop cp (r # rs) s = alerts_loop cp [r] s)"
proof (intro conjI impI)
  assume "\<not> query_rejects s"
  then show "\<exists>s2. alerts_loop cp (r # rs) s = alerts_loop cp rs s2
               \<and> alerts s2 = map (\<lambda>a. if a_id a = a_id (row_alert r)
                                        then deactivated (Suc (clock s)) a else a) (alerts s)
               \<and> console s2 = console s @ [if mail_faults s \<noteq> [] \<and> hd (mail_faults s)
                                           then Error_sending_email
                                           else Alert_sent (user_email (row_alert r))]
               \<and> outbox s2 = (if mail_faults s \<noteq> [] \<and> hd (mail_faults s) then outbox s
                              else outbox s @ [mailOptions r cp])
               \<and> db_faults s2 = tl (db_faults s) \<and> mail_faults s2 = tl (mail_faults s)
               \<and> clock s2 = Suc (clock s)
               \<and> products s2 = products s \<and> price_history s2 = price_history s
               \<and> next_alert_id s2 = next_alert_id s
               \<and> next_product_id s2 = next_product_id s"
    unfolding alerts_loop_step [OF assms]
    by (intro exI [of _ "snd (mark_triggered (a_id (row_alert r))
          (tick (state_of (sendPriceAlert r cp s))))"])
       (simp add: sendPriceAlert_console sendPriceAlert_outbox)
next
  assume rej: "query_rejects s"
  have e: "alerts_loop cp (r # rs) s =
      Inl (Store_failure, tick (state_of (sendPriceAlert r cp s)))" for rs
    unfolding alerts_loop_step [OF assms] using rej by simp
  show "\<exists>s'. alerts_loop cp (r # rs) s = Inl (Store_failure, s')
               \<and> alerts s' = alerts s
               \<and> outbox s' = (if mail_faults s \<noteq> [] \<and> hd (mail_faults s) then outbox s
                              else outbox s @ [mailOptions r cp])
               \<and> console s' = console s @ [if mail_faults s \<noteq> [] \<and> hd (mail_faults s)
                                           then Error_sending_email
                                           else Alert_sent (user_email (row_alert r))]
               \<and> mail_faults s' = tl (mail_faults s) \<and> db_faults s' = tl (db_faults s)
               \<and> clock s' = Suc (clock s)
               \<and> products s' = products s \<and> price_history s' = price_history s
               \<and> next_alert_id s' = next_alert_id s
               \<and> next_product_id s' = next_product_id s"
    unfolding e
    by (intro exI [of _ "tick (state_of (sendPriceAlert r cp s))"])
       (simp add: sendPriceAlert_console sendPriceAlert_outbox)
  show "alerts_loop cp (r # rs) s = alerts_loop cp [r] s"
    unfolding e ..
qed

theorem alerts_loop_failure_isolation_witness:
  "85 \<le> target_price (row_alert (join_row alert_90 listing_100))
   \<and> query_rejects (tick two_alerts)
   \<and> (\<exists>s'. alerts_loop 85 [join_row alert_90 listing_100, join_row alert_95 listing_100]
               (tick two_alerts) = Inl (Store_failure, s')
         \<and> alerts s' = [alert_90, alert_95]
         \<and> outbox s' = [mailOptions (join_row alert_90 listing_100) 85]
         \<and> console s' = [Alert_sent (user_email alert_90)]
         \<and> mail_faults s' = [] \<and> db_faults s' = [])
   \<and> \<not> query_rejects (scenario_start\<lparr>mail_faults := [True]\<rparr>)
   \<and> (\<exists>s2. alerts_loop 85 [join_row alert_90 listing_100, join_row alert_95 listing_100]
               (scenario_start\<lparr>mail_faults := [True]\<rparr>)
             = alerts_loop 85 [join_row alert_95 listing_100] s2
         \<and> alerts s2 = [deactivated 1 alert_90] \<and> console s2 = [Error_sending_email]
         \<and> outbox s2 = [])"
proof -
  have h: "85 \<le> target_price (row_alert (join_row alert_90 listing_100))"
    "query_rejects (tick two_alerts)" "\<not> query_rejects (scenario_start\<lparr>mail_faults := [True]\<rparr>)"
    by (simp_all add: query_rejects_def two_alerts_fields example_rows scenario_start_fields)
  note rejected = alerts_loop_failure_isolation [OF h(1), of "tick two_alerts"
      "[join_row alert_95 listing_100]", THEN conjunct2, THEN mp, OF h(2), THEN conjunct1]
  note accepted = alerts_loop_failure_isolation [OF h(1),
      of "scenario_start\<lparr>mail_faults := [True]\<rparr>" "[join_row alert_95 listing_100]",
      THEN conjunct1, THEN mp, OF h(3)]
  have "\<exists>s'. alerts_loop 85 [join_row alert_90 listing_100, join_row alert_95 listing_100]
               (tick two_alerts) = Inl (Store_failure, s')
         \<and> alerts s' = [alert_90, alert_95]
         \<and> outbox s' = [mailOptions (join_row alert_90 listing_100) 85]
         \<and> console s' = [Alert_sent (user_email alert_90)]
         \<and> mail_faults s' = [] \<and> db_faults s' = []"
    using rejected
    by (simp add: two_alerts_fields del: alerts_loop.simps) blast
  moreover have "\<exists>s2. alerts_loop 85 [join_row alert_90 listing_100, join_row alert_95 listing_100]
               (scenario_start\<lparr>mail_faults := [True]\<rparr>)
             = alerts_loop 85 [join_row alert_95 listing_100] s2
         \<and> alerts s2 = [deactivated 1 alert_90] \<and> console s2 = [Error_sending_email]
         \<and> outbox s2 = []"
    using accepted
    by (simp add: scenario_start_fields example_rows del: alerts_loop.simps) blast
  ultimately show ?thesis
    using h by (simp del: alerts_loop.simps)
qed

subsection \<open>Errors in the evaluation stay in the evaluation\<close>

lemma priced_listing_100:
  "priced v (marketplace_url listing_100) = Inr (listing_data_123 v)"
  "ld_price (listing_data_123 v) = v"
  unfolding priced_def mock_listing_def example_rows match_123 listing_data_123_def by simp_all

lemma throws_simps [simp]:
  "throws (Inl x) = True" "throws (Inr y) = False"
  by (simp_all add: throws_def)

lemma ingest_throws:
  "throws (ingest i L v s) = (query_rejects s \<or> price_changed L v \<and> query_rejects (tick s))"
proof (cases "query_rejects s")
  case True
  then show ?thesis by (simp add: ingest_update_rejected)
next
  case False
  show ?thesis
  proof (cases "price_changed L v")
    case unchanged: False
    then show ?thesis using False by (simp add: ingest_unchanged)
  next
    case changed: True
    show ?thesis
    proof (cases "query_rejects (tick s)")
      case True
      then show ?thesis using False changed by (simp add: ingest_insert_rejected)
    next
      case rej: False
      then show ?thesis using False changed by (simp add: ingest_changed)
    qed
  qed
qed

lemma not_throws_returns:
  fixes r :: "unit result"
  shows "\<not> throws r \<Longrightarrow> r = Inr ((), state_of r)"
  by (cases r) auto

text \<open>
  C10. \<^verbatim>\<open>checkAlerts\<close> never throws, and when its body throws the console gets the line
  \<^verbatim>\<open>Error checking alerts\<close>. Whether \<open>ingest\<close> throws is decided by its own two
  statements alone, so a manual refresh whose \<^verbatim>\<open>SELECT\<close>, scrape, \<^verbatim>\<open>UPDATE\<close> and
  \<^verbatim>\<open>INSERT\<close> succeed answers ``Product updated'', and an iteration of the sweep whose
  ingest does not throw logs no error, whatever happens while the alerts are checked.
  When the store rejects the deactivation of the first alert that fires, the
  notification has been attempted and the table of alerts is as it was: that alert is
  still active.
\<close>

theorem checkAlerts_errors_are_logged:
  "\<not> throws (checkAlerts i cp s)
   \<and> (throws (checkAlerts_body i cp s) \<longrightarrow>
        console (state_of (checkAlerts i cp s))
          = console (state_of (checkAlerts_body i cp s)) @ [Error_checking_alerts])
   \<and> throws (ingest i L v s) = (query_rejects s \<or> price_changed L v \<and> query_rejects (tick s))
   \<and> (\<not> query_rejects s \<and> filter (\<lambda>p. p_id p = i) (products s) = L # others
        \<and> observe (marketplace_url L) = Inr d
        \<and> \<not> query_rejects (tick s) \<and> \<not> query_rejects (tick (tick s))
      \<longrightarrow> fst (check_product_with observe i s) = Product_updated (ld_price d))
   \<and> (observe (marketplace_url L) = Inr d \<and> \<not> throws (ingest (p_id L) L (ld_price d) s)
      \<longrightarrow> sweep_loop observe (L # rest) s
          = sweep_loop observe rest (state_of (ingest (p_id L) L (ld_price d) s)))
   \<and> (\<not> query_rejects s \<and> query_rejects (tick s)
        \<and> filter (\<lambda>r. cp \<le> target_price (row_alert r)) (fst (select_active_alerts i s)) = r # rs
      \<longrightarrow> alerts (state_of (checkAlerts i cp s)) = alerts s
        \<and> console (state_of (checkAlerts i cp s)) =
            console s @ [if mail_faults s \<noteq> [] \<and> hd (mail_faults s) then Error_sending_email
                         else Alert_sent (user_email (row_alert r)),
                         Error_checking_alerts]
        \<and> outbox (state_of (checkAlerts i cp s)) =
            (if mail_faults s \<noteq> [] \<and> hd (mail_faults s) then outbox s
             else outbox s @ [mailOptions r cp]))"
proof (intro conjI impI)
  show "\<not> throws (checkAlerts i cp s)"
    by (subst checkAlerts_returns) simp
  show "console (state_of (checkAlerts i cp s))
          = console (state_of (checkAlerts_body i cp s)) @ [Error_checking_alerts]"
    if "throws (checkAlerts_body i cp s)"
    using that by (cases "checkAlerts_body i cp s") (auto simp: checkAlerts_state)
  show "throws (ingest i L v s) = (query_rejects s \<or> price_changed L v \<and> query_rejects (tick s))"
    by (rule ingest_throws)
  show "fst (check_product_with observe i s) = Product_updated (ld_price d)"
    if a: "\<not> query_rejects s \<and> filter (\<lambda>p. p_id p = i) (products s) = L # others
        \<and> observe (marketplace_url L) = Inr d
        \<and> \<not> query_rejects (tick s) \<and> \<not> query_rejects (tick (tick s))"
  proof -
    from a have "\<not> throws (ingest i L (ld_price d) (tick s))"
      by (simp add: ingest_throws)
    from not_throws_returns [OF this] obtain s' where
      "ingest i L (ld_price d) (tick s) = Inr ((), s')" by blast
    then show ?thesis
      using a check_product_reaches_ingest [of s i L others observe d] by simp
  qed
  show "sweep_loop observe (L # rest) s
          = sweep_loop observe rest (state_of (ingest (p_id L) L (ld_price d) s))"
    if a: "observe (marketplace_url L) = Inr d \<and> \<not> throws (ingest (p_id L) L (ld_price d) s)"
  proof -
    from a not_throws_returns obtain s' where
      i: "ingest (p_id L) L (ld_price d) s = Inr ((), s')" by blast
    show ?thesis
      using a by (simp add: scrape_with_def i)
  qed
next
  assume a: "\<not> query_rejects s \<and> query_rejects (tick s)
        \<and> filter (\<lambda>r. cp \<le> target_price (row_alert r)) (fst (select_active_alerts i s)) = r # rs"
  then have st: "state_of (checkAlerts i cp s) =
     log_line Error_checking_alerts (tick (state_of (sendPriceAlert r cp (tick s))))"
    by (intro checkAlerts_deactivation_rejected) simp_all
  show "alerts (state_of (checkAlerts i cp s)) = alerts s"
    unfolding st by simp
  show "console (state_of (checkAlerts i cp s)) =
            console s @ [if mail_faults s \<noteq> [] \<and> hd (mail_faults s) then Error_sending_email
                         else Alert_sent (user_email (row_alert r)),
                         Error_checking_alerts]"
    unfolding st by (simp add: sendPriceAlert_console)
  show "outbox (state_of (checkAlerts i cp s)) =
            (if mail_faults s \<noteq> [] \<and> hd (mail_faults s) then outbox s
             else outbox s @ [mailOptions r cp])"
    unfolding st by (simp add: sendPriceAlert_outbox)
qed

theorem checkAlerts_errors_are_logged_witness:
  "\<not> query_rejects failing_deactivation
   \<and> filter (\<lambda>p. p_id p = 1) (products failing_deactivation) = [listing_100]
   \<and> priced 85 (marketplace_url listing_100) = Inr (listing_data_123 85)
   \<and> \<not> query_rejects (tick failing_deactivation)
   \<and> \<not> query_rejects (tick (tick failing_deactivation))
   \<and> fst (check_product_with (priced 85) 1 failing_deactivation) = Product_updated 85
   \<and> \<not> query_rejects two_alerts \<and> query_rejects (tick two_alerts)
   \<and> filter (\<lambda>r. 85 \<le> target_price (row_alert r)) (fst (select_active_alerts 1 two_alerts))
       = [join_row alert_90 listing_100, join_row alert_95 listing_100]
   \<and> alerts (state_of (checkAlerts 1 85 two_alerts)) = [alert_90, alert_95]
   \<and> console (state_of (checkAlerts 1 85 two_alerts))
       = [Alert_sent ''buyer@example.com'', Error_checking_alerts]
   \<and> outbox (state_of (checkAlerts 1 85 two_alerts))
       = [mailOptions (join_row alert_90 listing_100) 85]"
proof -
  have h1: "\<not> query_rejects failing_deactivation
     \<and> filter (\<lambda>p. p_id p = 1) (products failing_deactivation) = listing_100 # []
     \<and> priced 85 (marketplace_url listing_100) = Inr (listing_data_123 85)
     \<and> \<not> query_rejects (tick failing_deactivation)
     \<and> \<not> query_rejects (tick (tick failing_deactivation))"
    by (simp add: query_rejects_def tick_def failing_deactivation_def scenario_start_def
        example_rows(1) priced_listing_100)
  have "filter (\<lambda>p. p_id p = 1) (products two_alerts) = [listing_100]"
    by (simp add: two_alerts_fields example_rows)
  note rows = select_rows_unique [OF this]
  have h2: "\<not> query_rejects two_alerts \<and> query_rejects (tick two_alerts)
     \<and> filter (\<lambda>r. 85 \<le> target_price (row_alert r)) (fst (select_active_alerts 1 two_alerts))
         = join_row alert_90 listing_100 # [join_row alert_95 listing_100]"
    unfolding rows
    by (simp add: query_rejects_def two_alerts_fields example_rows alert_95_fields)
  have e: "user_email alert_90 = ''buyer@example.com''"
    by (simp add: alert_90_def)
  note t1 = checkAlerts_errors_are_logged [of 1 85 failing_deactivation listing_100 85 "[]"
      "priced 85" "listing_data_123 85"]
  note t2 = checkAlerts_errors_are_logged [of 1 85 two_alerts listing_100 85 "[]"
      "priced 85" "listing_data_123 85" "[]" "join_row alert_90 listing_100"
      "[join_row alert_95 listing_100]"]
  have c1: "fst (check_product_with (priced 85) 1 failing_deactivation) = Product_updated 85"
    using t1 h1 by (simp add: priced_listing_100)
  have c2: "alerts (state_of (checkAlerts 1 85 two_alerts)) = [alert_90, alert_95]
     \<and> console (state_of (checkAlerts 1 85 two_alerts))
         = [Alert_sent ''buyer@example.com'', Error_checking_alerts]
     \<and> outbox (state_of (checkAlerts 1 85 two_alerts))
         = [mailOptions (join_row alert_90 listing_100) 85]"
    using t2 h2 by (simp add: two_alerts_fields e)
  show ?thesis
    using h1 h2 c1 c2 by simp
qed

subsection \<open>No validation of the observed price\<close>

lemma ingest_products:
  assumes "\<not> query_rejects s" "\<not> query_rejects (tick s)"
  shows "\<exists>s'. ingest i L v s = Inr ((), s')
     \<and> products s' = map (\<lambda>p. if p_id p = i then p\<lparr>current_price := v, last_checked := Suc (clock s)\<rparr>
                                else p) (products s)"
proof (cases "price_changed L v")
  case True
  show ?thesis
    unfolding ingest_changed [OF assms(1) True assms(2)]
    by (simp add: checkAlerts_keeps)
next
  case False
  show ?thesis
    unfolding ingest_unchanged [OF False] using assms(1) by simp
qed

lemma mock_listing_price: "mock_listing url = Inr d \<Longrightarrow> ld_price d = 0"
  by (auto simp: mock_listing_def split: option.splits)

lemma check_product_scrape_fails:
  assumes "\<not> query_rejects s" "filter (\<lambda>p. p_id p = i) (products s) = L # others"
    "observe (marketplace_url L) = Inl e"
  shows "check_product_with observe i s =
     (Failed_to_check_product, log_line Error_checking_product (log_line Scraping_error (tick s)))"
  using assms
  by (simp add: check_product_with_def check_body_def pool_query_def select_product_def
      scrape_with_def)

text \<open>
  C7, as stated, fails: nothing on the path checks the observed price. With a scraper
  that reads \<open>- 5\<close> for the example listing, the manual refresh answers
  ``Product updated'', stores \<open>- 5\<close> as the current price, appends it to the history and
  fires the alert at 90.
\<close>

theorem negative_price_accepted_counterexample:
  "(- 5 :: price) < 0
   \<and> fst (check_product_with (priced (- 5)) 1 scenario_start) = Product_updated (- 5)
   \<and> map current_price (products (snd (check_product_with (priced (- 5)) 1 scenario_start)))
       = [- 5]
   \<and> price_history (snd (check_product_with (priced (- 5)) 1 scenario_start))
       = [new_history_entry 1 100 0, new_history_entry 1 (- 5) 3]
   \<and> map is_active (alerts (snd (check_product_with (priced (- 5)) 1 scenario_start))) = [False]"
proof -
  have h: "store_ok scenario_start" "distinct (map a_id (alerts scenario_start))"
    "filter (\<lambda>p. p_id p = 1) (products scenario_start) = [listing_100]"
    "- 5 \<noteq> current_price listing_100"
    by (simp_all add: store_ok_def scenario_start_fields example_rows)
  note f = check_product_changed_ok [where observe = "priced (- 5)", OF h(1,2,3)
      priced_listing_100 h(4)]
  have "map is_active (alerts (snd (check_product_with (priced (- 5)) 1 scenario_start)))
      = [False]"
    using f(6) by (auto simp: scenario_start_fields example_rows deactivated_def)
  then show ?thesis
    unfolding f(1) f(4) f(5)
    by (simp add: scenario_start_fields example_rows)
qed

lemma check_product_succeeds:
  assumes "\<not> query_rejects t" "filter (\<lambda>p. p_id p = i) (products t) = L # others"
    "observe (marketplace_url L) = Inr d"
    "\<not> query_rejects (tick t)" "\<not> query_rejects (tick (tick t))"
  shows "fst (check_product_with observe i t) = Product_updated (ld_price d)"
proof -
  have "\<not> throws (ingest i L (ld_price d) (tick t))"
    using assms(4,5) by (simp add: ingest_throws)
  from not_throws_returns [OF this] obtain s' where
    "ingest i L (ld_price d) (tick t) = Inr ((), s')" by blast
  then show ?thesis
    using assms(1,2,3) check_product_reaches_ingest [of t i L others observe d] by simp
qed

text \<open>
  C7, amended. The ingest does not reject a negative observed price; it treats it as any
  other price. For every observed price \<open>v\<close>: the store accepting the \<^verbatim>\<open>UPDATE\<close> and the
  \<^verbatim>\<open>INSERT\<close>, the ingest returns, the listing carries \<open>v\<close> as its current price and,
  when \<open>v\<close> differs from the stored price, the history has grown by an entry with \<open>v\<close>
  and the state left is the one in which \<^verbatim>\<open>checkAlerts\<close> has run with \<open>v\<close>. A manual
  refresh whose statements the store accepts answers ``Product updated'' with \<open>v\<close>,
  and, \<open>v\<close> differing from the stored price, every active alert of the listing whose
  target is at or above \<open>v\<close> has fired.
\<close>

theorem ingest_accepts_any_price:
  "(\<not> query_rejects s \<and> \<not> query_rejects (tick s) \<longrightarrow>
      (\<exists>s'. ingest i L v s = Inr ((), s')
         \<and> products s' = map (\<lambda>p. if p_id p = i
                                    then p\<lparr>current_price := v, last_checked := Suc (clock s)\<rparr>
                                    else p) (products s)
         \<and> price_history s' =
             (if v = current_price L then price_history s
              else price_history s @ [new_history_entry i v (Suc (Suc (clock s)))])
         \<and> (v \<noteq> current_price L \<longrightarrow>
              s' = state_of (checkAlerts i v
                     (snd (insert_price_history i v
                        (tick (snd (update_product_price v i (tick s))))))))))
   \<and> (\<not> query_rejects t \<and> filter (\<lambda>p. p_id p = i) (products t) = L # others
        \<and> observe (marketplace_url L) = Inr d
        \<and> \<not> query_rejects (tick t) \<and> \<not> query_rejects (tick (tick t)) \<longrightarrow>
      fst (check_product_with observe i t) = Product_updated (ld_price d))
   \<and> (store_ok t \<and> distinct (map a_id (alerts t))
        \<and> filter (\<lambda>p. p_id p = i) (products t) = [L]
        \<and> observe (marketplace_url L) = Inr d \<and> ld_price d = v \<and> v \<noteq> current_price L \<longrightarrow>
      fst (check_product_with observe i t) = Product_updated v
      \<and> products (snd (check_product_with observe i t)) =
          map (\<lambda>p. if p_id p = i then p\<lparr>current_price := v, last_checked := clock t + 2\<rparr>
                    else p) (products t)
      \<and> price_history (snd (check_product_with observe i t)) =
          price_history t @ [new_history_entry i v (clock t + 3)]
      \<and> (\<exists>\<tau>. alerts (snd (check_product_with observe i t)) =
            map (\<lambda>a. if product_id a = i \<and> is_active a \<and> v \<le> target_price a
                      then deactivated (\<tau> a) a else a) (alerts t)
          \<and> (\<forall>a. clock t < \<tau> a)))"
proof (intro conjI impI)
  assume a: "\<not> query_rejects s \<and> \<not> query_rejects (tick s)"
  show "\<exists>s'. ingest i L v s = Inr ((), s')
         \<and> products s' = map (\<lambda>p. if p_id p = i
                                    then p\<lparr>current_price := v, last_checked := Suc (clock s)\<rparr>
                                    else p) (products s)
         \<and> price_history s' =
             (if v = current_price L then price_history s
              else price_history s @ [new_history_entry i v (Suc (Suc (clock s)))])
         \<and> (v \<noteq> current_price L \<longrightarrow>
              s' = state_of (checkAlerts i v
                     (snd (insert_price_history i v
                        (tick (snd (update_product_price v i (tick s))))))))"
  proof (cases "price_changed L v")
    case True
    then have ne: "v \<noteq> current_price L" by (simp add: price_changed_def)
    from a have r: "\<not> query_rejects s" "\<not> query_rejects (tick s)" by simp_all
    show ?thesis
      unfolding ingest_changed [OF r(1) True r(2)] using ne
      by (simp add: checkAlerts_keeps)
  next
    case False
    then have eq: "v = current_price L" by (simp add: price_changed_def)
    show ?thesis
      unfolding ingest_unchanged [OF False] using a eq by simp
  qed
next
  assume c: "\<not> query_rejects t \<and> filter (\<lambda>p. p_id p = i) (products t) = L # others
        \<and> observe (marketplace_url L) = Inr d
        \<and> \<not> query_rejects (tick t) \<and> \<not> query_rejects (tick (tick t))"
  have c1: "\<not> query_rejects t" using c by (rule conjunct1)
  note d1 = c [THEN conjunct2]
  have c2: "filter (\<lambda>p. p_id p = i) (products t) = L # others" using d1 by (rule conjunct1)
  note d2 = d1 [THEN conjunct2]
  have c3: "observe (marketplace_url L) = Inr d" using d2 by (rule conjunct1)
  note d3 = d2 [THEN conjunct2]
  have c4: "\<not> query_rejects (tick t)" using d3 by (rule conjunct1)
  have c5: "\<not> query_rejects (tick (tick t))" using d3 by (rule conjunct2)
  show "fst (check_product_with observe i t) = Product_updated (ld_price d)"
    using c1 c2 c3 c4 c5 by (rule check_product_succeeds)
next
  assume b: "store_ok t \<and> distinct (map a_id (alerts t))
        \<and> filter (\<lambda>p. p_id p = i) (products t) = [L]
        \<and> observe (marketplace_url L) = Inr d \<and> ld_price d = v \<and> v \<noteq> current_price L"
  then have h: "store_ok t" "distinct (map a_id (alerts t))"
    "filter (\<lambda>p. p_id p = i) (products t) = [L]"
    "observe (marketplace_url L) = Inr d" "ld_price d = v" "v \<noteq> current_price L"
    by simp_all
  note f = check_product_changed_ok [where observe = observe, OF h]
  show "fst (check_product_with observe i t) = Product_updated v" by (rule f(1))
  show "products (snd (check_product_with observe i t)) =
          map (\<lambda>p. if p_id p = i then p\<lparr>current_price := v, last_checked := clock t + 2\<rparr>
                    else p) (products t)" by (rule f(4))
  show "price_history (snd (check_product_with observe i t)) =
          price_history t @ [new_history_entry i v (clock t + 3)]" by (rule f(5))
  show "\<exists>\<tau>. alerts (snd (check_product_with observe i t)) =
            map (\<lambda>a. if product_id a = i \<and> is_active a \<and> v \<le> target_price a
                      then deactivated (\<tau> a) a else a) (alerts t)
          \<and> (\<forall>a. clock t < \<tau> a)" by (rule f(6))
qed

theorem ingest_accepts_any_price_witness:
  "(- 5 :: price) < 0
   \<and> \<not> query_rejects scenario_start \<and> \<not> query_rejects (tick scenario_start)
   \<and> (\<exists>s'. ingest 1 listing_100 (- 5) scenario_start = Inr ((), s')
         \<and> products s' = [listing_100\<lparr>current_price := - 5, last_checked := 1\<rparr>]
         \<and> price_history s' = [new_history_entry 1 100 0, new_history_entry 1 (- 5) 2])
   \<and> store_ok scenario_start \<and> distinct (map a_id (alerts scenario_start))
   \<and> filter (\<lambda>p. p_id p = 1) (products scenario_start) = [listing_100]
   \<and> priced (- 5) (marketplace_url listing_100) = Inr (listing_data_123 (- 5))
   \<and> fst (check_product_with (priced (- 5)) 1 scenario_start) = Product_updated (- 5)
   \<and> price_history (snd (check_product_with (priced (- 5)) 1 scenario_start)) =
       [new_history_entry 1 100 0, new_history_entry 1 (- 5) 3]
   \<and> (\<exists>t. alerts (snd (check_product_with (priced (- 5)) 1 scenario_start)) =
           [deactivated t alert_90])"
proof -
  have h: "\<not> query_rejects scenario_start \<and> \<not> query_rejects (tick scenario_start)"
    by (simp add: query_rejects_def scenario_start_fields)
  have g: "store_ok scenario_start \<and> distinct (map a_id (alerts scenario_start))
        \<and> filter (\<lambda>p. p_id p = 1) (products scenario_start) = [listing_100]
        \<and> priced (- 5) (marketplace_url listing_100) = Inr (listing_data_123 (- 5))
        \<and> ld_price (listing_data_123 (- 5)) = - 5 \<and> - 5 \<noteq> current_price listing_100"
    by (simp add: store_ok_def scenario_start_fields example_rows(1,2) example_rows(4)
        priced_listing_100)
  note t = ingest_accepts_any_price [where s = scenario_start and i = 1 and L = listing_100
      and v = "- 5" and t = scenario_start and observe = "priced (- 5)"
      and d = "listing_data_123 (- 5)" and others = "[]"]
  note first = t [THEN conjunct1, THEN mp, OF h]
  note second = t [THEN conjunct2, THEN conjunct2, THEN mp, OF g]
  have "\<exists>s'. ingest 1 listing_100 (- 5) scenario_start = Inr ((), s')
         \<and> products s' = [listing_100\<lparr>current_price := - 5, last_checked := 1\<rparr>]
         \<and> price_history s' = [new_history_entry 1 100 0, new_history_entry 1 (- 5) 2]"
    using first by (auto simp: scenario_start_fields example_rows(1,2) numeral_2_eq_2)
  moreover have "fst (check_product_with (priced (- 5)) 1 scenario_start) = Product_updated (- 5)"
    using second by simp
  moreover have "price_history (snd (check_product_with (priced (- 5)) 1 scenario_start)) =
       [new_history_entry 1 100 0, new_history_entry 1 (- 5) 3]"
    using second by (simp add: scenario_start_fields)
  moreover have "\<exists>t. alerts (snd (check_product_with (priced (- 5)) 1 scenario_start)) =
           [deactivated t alert_90]"
    using second by (auto simp: scenario_start_fields example_rows)
  ultimately show ?thesis
    using h g by simp
qed

subsection \<open>Refreshing an unchanged price\<close>

lemma check_product_rejected:
  "query_rejects s \<Longrightarrow>
   check_product_with observe i s =
     (Failed_to_check_product, log_line Error_checking_product (tick s))"
  by (simp add: check_product_with_def check_body_def pool_query_def)

lemma check_product_not_found:
  "\<not> query_rejects s \<Longrightarrow> filter (\<lambda>p. p_id p = i) (products s) = [] \<Longrightarrow>
   check_product_with observe i s = (Product_not_found, tick s)"
  by (simp add: check_product_with_def check_body_def pool_query_def select_product_def)

lemma check_unchanged_cases:
  assumes inv: "\<forall>p \<in> set (products s). p_id p = i \<longrightarrow> current_price p = v"
    and obs: "\<forall>url d. observe url = Inr d \<longrightarrow> ld_price d = v"
    and "P (log_line Error_checking_product (tick s))" "P (tick s)"
      "P (log_line Error_checking_product (log_line Scraping_error (tick s)))"
      "P (log_line Error_checking_product (tick (tick s)))"
      "P (snd (update_product_price v i (tick (tick s))))"
  shows "P (snd (check_product_with observe i s))"
proof (cases "query_rejects s")
  case True
  then show ?thesis using assms(3) by (simp add: check_product_rejected)
next
  case False
  show ?thesis
  proof (cases "filter (\<lambda>p. p_id p = i) (products s)")
    case Nil
    then show ?thesis using False assms(4) by (simp add: check_product_not_found)
  next
    case (Cons L others)
    then have "L \<in> set (filter (\<lambda>p. p_id p = i) (products s))" by simp
    then have "current_price L = v" using inv by simp
    then have unchanged: "\<not> price_changed L v" by (simp add: price_changed_def)
    show ?thesis
    proof (cases "observe (marketplace_url L)")
      case (Inl e)
      then show ?thesis using False Cons assms(5) by (simp add: check_product_scrape_fails)
    next
      case (Inr d)
      then have d: "ld_price d = v" using obs by blast
      have "check_product_with observe i s =
        (case ingest i L (ld_price d) (tick s) of
           Inl (e, s') \<Rightarrow> (Failed_to_check_product, log_line Error_checking_product s')
         | Inr (u, s') \<Rightarrow> (Product_updated (ld_price d), s'))"
        using check_product_reaches_ingest [of s i L others observe d] False Cons Inr
        by simp
      then show ?thesis
        unfolding d ingest_unchanged [OF unchanged] using assms(6,7) by simp
    qed
  qed
qed

lemma updated_rows_priced:
  assumes "q \<in> set (products (snd (update_product_price v i t)))" "p_id q = i"
  shows "current_price q = v"
proof -
  from assms(1) obtain p where
    q: "q = (if p_id p = i then p\<lparr>current_price := v, last_checked := clock t\<rparr> else p)"
    unfolding update_product_price_fields by (auto simp only: set_map image_iff)
  show ?thesis
  proof (cases "p_id p = i")
    case True
    then show ?thesis by (simp add: q)
  next
    case False
    then show ?thesis using assms(2) by (simp add: q)
  qed
qed

lemma check_unchanged_step:
  assumes inv: "\<forall>p \<in> set (products s). p_id p = i \<longrightarrow> current_price p = v"
    and obs: "\<forall>url d. observe url = Inr d \<longrightarrow> ld_price d = v"
  shows "price_history (snd (check_product_with observe i s)) = price_history s"
    "alerts (snd (check_product_with observe i s)) = alerts s"
    "outbox (snd (check_product_with observe i s)) = outbox s"
    "mail_faults (snd (check_product_with observe i s)) = mail_faults s"
    "clock (snd (check_product_with observe i s)) \<le> clock s + 2"
    "\<forall>p \<in> set (products (snd (check_product_with observe i s))).
        p_id p = i \<longrightarrow> current_price p = v"
proof -
  show "price_history (snd (check_product_with observe i s)) = price_history s"
    by (rule check_unchanged_cases [where P = "\<lambda>t. price_history t = price_history s", OF inv obs]) simp_all
  show "alerts (snd (check_product_with observe i s)) = alerts s"
    by (rule check_unchanged_cases [where P = "\<lambda>t. alerts t = alerts s", OF inv obs]) simp_all
  show "outbox (snd (check_product_with observe i s)) = outbox s"
    by (rule check_unchanged_cases [where P = "\<lambda>t. outbox t = outbox s", OF inv obs]) simp_all
  show "mail_faults (snd (check_product_with observe i s)) = mail_faults s"
    by (rule check_unchanged_cases [where P = "\<lambda>t. mail_faults t = mail_faults s", OF inv obs]) simp_all
  show "clock (snd (check_product_with observe i s)) \<le> clock s + 2"
    by (rule check_unchanged_cases [where P = "\<lambda>t. clock t \<le> clock s + 2", OF inv obs]) simp_all
  show "\<forall>p \<in> set (products (snd (check_product_with observe i s))).
        p_id p = i \<longrightarrow> current_price p = v"
    by (rule check_unchanged_cases [where P = "\<lambda>t. \<forall>p \<in> set (products t). p_id p = i \<longrightarrow> current_price p = v", OF inv obs])
      (use inv updated_rows_priced in \<open>simp_all del: update_product_price_fields\<close>)
qed

lemma refresh_times_Suc:
  "refresh_times observe i (Suc n) s
     = snd (check_product_with observe i (refresh_times observe i n s))"
  by (simp add: refresh_times_def)

lemma refresh_unchanged:
  assumes inv: "\<forall>p \<in> set (products s). p_id p = i \<longrightarrow> current_price p = v"
    and obs: "\<forall>url d. observe url = Inr d \<longrightarrow> ld_price d = v"
  shows "price_history (refresh_times observe i n s) = price_history s
     \<and> alerts (refresh_times observe i n s) = alerts s
     \<and> outbox (refresh_times observe i n s) = outbox s
     \<and> mail_faults (refresh_times observe i n s) = mail_faults s
     \<and> clock (refresh_times observe i n s) \<le> clock s + 2 * n
     \<and> (\<forall>p \<in> set (products (refresh_times observe i n s)). p_id p = i \<longrightarrow> current_price p = v)"
proof (induction n)
  case 0
  show ?case using inv by (simp add: refresh_times_def)
next
  case (Suc n)
  then have inv': "\<forall>p \<in> set (products (refresh_times observe i n s)).
      p_id p = i \<longrightarrow> current_price p = v"
    by blast
  note st = check_unchanged_step [OF inv' obs]
  have ih: "price_history (refresh_times observe i n s) = price_history s"
    "alerts (refresh_times observe i n s) = alerts s"
    "outbox (refresh_times observe i n s) = outbox s"
    "mail_faults (refresh_times observe i n s) = mail_faults s"
    "clock (refresh_times observe i n s) \<le> clock s + 2 * n"
    using Suc by simp_all
  have clk: "clock (snd (check_product_with observe i (refresh_times observe i n s)))
      \<le> clock s + 2 * Suc n"
    using st(5) ih(5) by simp
  show ?case
    unfolding refresh_times_Suc st(1,2,3,4) ih(1,2,3,4)
    using st(6) clk by simp
qed

text \<open>
  C8. When the observed price equals the stored price, the ingest is the \<^verbatim>\<open>UPDATE\<close> of
  the listing and nothing else. So any number of manual refreshes in succession that
  observe the stored price leave the price history, the alerts, the outbox and the
  script of the mail transport as they were, under any faults, and send at most two
  statements each (the \<^verbatim>\<open>SELECT\<close> of the listing and its \<^verbatim>\<open>UPDATE\<close>): the alerts are
  not evaluated.
\<close>

theorem unchanged_price_is_idempotent:
  assumes "\<forall>p \<in> set (products s). p_id p = i \<longrightarrow> current_price p = v"
    and "\<forall>url d. observe url = Inr d \<longrightarrow> ld_price d = v"
  shows "price_history (refresh_times observe i n s) = price_history s
     \<and> alerts (refresh_times observe i n s) = alerts s
     \<and> outbox (refresh_times observe i n s) = outbox s
     \<and> mail_faults (refresh_times observe i n s) = mail_faults s
     \<and> clock (refresh_times observe i n s) \<le> clock s + 2 * n
     \<and> (current_price L = v \<longrightarrow>
          ingest i L v s = (if query_rejects s then Inl (Store_failure, tick s)
                            else Inr ((), snd (update_product_price v i (tick s)))))"
proof -
  have "ingest i L v s = (if query_rejects s then Inl (Store_failure, tick s)
                            else Inr ((), snd (update_product_price v i (tick s))))"
    if "current_price L = v"
    using that by (intro ingest_unchanged) (simp add: price_changed_def)
  then show ?thesis
    using refresh_unchanged [OF assms, of n] by blast
qed

theorem unchanged_price_is_idempotent_witness:
  "map current_price (products stored_at_0) = [0]
   \<and> map is_active (alerts stored_at_0) = [True]
   \<and> map target_price (alerts stored_at_0) = [90]
   \<and> price_history (refresh_times mock_listing 1 3 stored_at_0) = price_history stored_at_0
   \<and> alerts (refresh_times mock_listing 1 3 stored_at_0) = alerts stored_at_0
   \<and> outbox (refresh_times mock_listing 1 3 stored_at_0) = outbox stored_at_0
   \<and> clock (refresh_times mock_listing 1 3 stored_at_0) \<le> 6"
proof -
  have h: "\<forall>p \<in> set (products stored_at_0). p_id p = 1 \<longrightarrow> current_price p = 0"
    "\<forall>url d. mock_listing url = Inr d \<longrightarrow> ld_price d = 0"
    by (simp_all add: stored_at_0_def mock_listing_price)
  have f: "map current_price (products stored_at_0) = [0]"
    "map is_active (alerts stored_at_0) = [True]"
    "map target_price (alerts stored_at_0) = [90]" "clock stored_at_0 = 0"
    by (simp_all add: stored_at_0_def scenario_start_def alert_90_def)
  show ?thesis
    using f unchanged_price_is_idempotent [OF h, of 3] by simp
qed

subsection \<open>Properties that every operation keeps\<close>

lemma stableD:
  assumes "stable P" "P t"
  shows "P (tick t)" "P (log_line l t)" "P (snd (update_product_price v i t))"
    "P (snd (reactivate_product v i t))" "P (snd (insert_product d url t))"
    "P (snd (insert_price_history i v t))" "P (snd (insert_alert i e v k t))"
    "P (state_of (checkAlerts i v t))"
proof -
  show "P (tick t)" using assms by (simp add: stable_def)
  show "P (log_line l t)" using assms by (simp add: stable_def)
  show "P (snd (update_product_price v i t))" using assms by (simp add: stable_def)
  show "P (snd (reactivate_product v i t))" using assms by (simp add: stable_def)
  show "P (snd (insert_product d url t))" using assms by (simp add: stable_def)
  show "P (snd (insert_price_history i v t))" using assms by (simp add: stable_def)
  show "P (snd (insert_alert i e v k t))" using assms by (simp add: stable_def)
  show "P (state_of (checkAlerts i v t))" using assms by (simp add: stable_def)
qed

lemma ingest_stable:
  assumes "stable P" "P s"
  shows "P (state_of (ingest i L v s))"
proof -
  note st = stableD [OF assms(1)]
  have p: "P (tick s)" "P (snd (update_product_price v i (tick s)))"
    "P (tick (snd (update_product_price v i (tick s))))"
    "P (snd (insert_price_history i v (tick (snd (update_product_price v i (tick s))))))"
    "P (state_of (checkAlerts i v
        (snd (insert_price_history i v (tick (snd (update_product_price v i (tick s))))))))"
    using assms(2) by (simp_all add: st)
  show ?thesis
  proof (cases "query_rejects s")
    case True
    then show ?thesis using p by (simp add: ingest_update_rejected)
  next
    case False
    show ?thesis
    proof (cases "price_changed L v")
      case unchanged: False
      then show ?thesis using False p by (simp add: ingest_unchanged)
    next
      case changed: True
      show ?thesis
      proof (cases "query_rejects (tick s)")
        case True
        then show ?thesis
          using False changed p by (simp add: ingest_insert_rejected)
      next
        case rej: False
        then show ?thesis
          using False changed p by (simp add: ingest_changed)
      qed
    qed
  qed
qed

lemma check_product_stable:
  assumes "stable P" "P s"
  shows "P (snd (check_product_with observe i s))"
proof -
  note st = stableD [OF assms(1)]
  have p: "P (tick s)" "P (log_line Error_checking_product (tick s))"
    "P (log_line Error_checking_product (log_line Scraping_error (tick s)))"
    using assms(2) by (simp_all add: st)
  show ?thesis
  proof (cases "query_rejects s")
    case True
    then show ?thesis using p by (simp add: check_product_rejected)
  next
    case False
    show ?thesis
    proof (cases "filter (\<lambda>p. p_id p = i) (products s)")
      case Nil
      then show ?thesis using False p by (simp add: check_product_not_found)
    next
      case (Cons L others)
      show ?thesis
      proof (cases "observe (marketplace_url L)")
        case (Inl e)
        then show ?thesis
          using False Cons p by (simp add: check_product_scrape_fails)
      next
        case (Inr d)
        have eq: "check_product_with observe i s =
          (case ingest i L (ld_price d) (tick s) of
             Inl (e, s') \<Rightarrow> (Failed_to_check_product, log_line Error_checking_product s')
           | Inr (u, s') \<Rightarrow> (Product_updated (ld_price d), s'))"
          using check_product_reaches_ingest [of s i L others observe d] False Cons Inr
          by simp
        have q: "P (state_of (ingest i L (ld_price d) (tick s)))"
          using assms(1) p(1) by (rule ingest_stable)
        show ?thesis
        proof (cases "ingest i L (ld_price d) (tick s)")
          case inl: (Inl x)
          obtain e s' where x: "x = (e, s')" by (cases x)
          have "P (log_line Error_checking_product s')"
            using q by (simp add: inl x st)
          then show ?thesis unfolding eq by (simp add: inl x)
        next
          case inr: (Inr y)
          obtain u s' where y: "y = (u, s')" by (cases y)
          have "P s'" using q by (simp add: inr y)
          then show ?thesis unfolding eq by (simp add: inr y)
        qed
      qed
    qed
  qed
qed

lemma sweep_loop_stable:
  assumes "stable P" "P s"
  shows "P (sweep_loop observe rows s)"
  using assms(2)
proof (induction rows arbitrary: s)
  case Nil
  then show ?case by simp
next
  case (Cons L rest)
  note st = stableD [OF assms(1)]
  show ?case
  proof (cases "observe (marketplace_url L)")
    case (Inl e)
    have "P (log_line (Error_checking_product_id (p_id L)) (log_line Scraping_error s))"
      using Cons.prems by (simp add: st)
    then have "P (sweep_loop observe rest
        (log_line (Error_checking_product_id (p_id L)) (log_line Scraping_error s)))"
      by (rule Cons.IH)
    then show ?thesis using Inl by (simp add: scrape_with_def)
  next
    case (Inr d)
    have p: "P (state_of (ingest (p_id L) L (ld_price d) s))"
      using assms(1) Cons.prems by (rule ingest_stable)
    show ?thesis
    proof (cases "ingest (p_id L) L (ld_price d) s")
      case (Inl x)
      obtain e s' where x: "x = (e, s')" by (cases x)
      have "P (log_line (Error_checking_product_id (p_id L)) s')"
        using p by (simp add: Inl x st)
      then have "P (sweep_loop observe rest (log_line (Error_checking_product_id (p_id L)) s'))"
        by (rule Cons.IH)
      then show ?thesis using Inr Inl x by (simp add: scrape_with_def)
    next
      case inr: (Inr y)
      obtain u s' where y: "y = (u, s')" by (cases y)
      have "P s'" using p by (simp add: inr y)
      then have "P (sweep_loop observe rest s')" by (rule Cons.IH)
      then show ?thesis using Inr inr y by (simp add: scrape_with_def)
    qed
  qed
qed

lemma scheduled_check_stable:
  assumes "stable P" "P s"
  shows "P (scheduled_check_with observe s)"
proof -
  note st = stableD [OF assms(1)]
  define s0 where "s0 = log_line Running_scheduled_price_check s"
  have p0: "P s0" "P (tick s0)" "P (log_line Error_in_scheduled_price_check (tick s0))"
    using assms(2) by (simp_all add: s0_def st)
  show ?thesis
  proof (cases "query_rejects s0")
    case True
    then show ?thesis
      using p0 by (simp add: scheduled_check_with_def s0_def [symmetric] pool_query_def)
  next
    case False
    have "P (sweep_loop observe (filter (\<lambda>p. status p = ''active'') (products s0)) (tick s0))"
      using assms(1) p0(2) by (rule sweep_loop_stable)
    then have "P (log_line Price_check_completed
       (sweep_loop observe (filter (\<lambda>p. status p = ''active'') (products s0)) (tick s0)))"
      by (simp add: st)
    then show ?thesis
      using False
      by (simp add: scheduled_check_with_def s0_def [symmetric] pool_query_def
          select_active_products_def)
  qed
qed

lemma result_bind:
  assumes "P (state_of r)" "\<And>v t. r = Inr (v, t) \<Longrightarrow> P t \<Longrightarrow> P (state_of (f v t))"
  shows "P (state_of (case r of Inl x \<Rightarrow> Inl x | Inr (v, t) \<Rightarrow> f v t))"
proof (cases r)
  case (Inl x)
  obtain e s' where x: "x = (e, s')" by (cases x)
  show ?thesis using assms(1) by (simp add: Inl x)
next
  case (Inr y)
  obtain v t where y: "y = (v, t)" by (cases y)
  have "P t" using assms(1) by (simp add: Inr y)
  then have "P (state_of (f v t))" using Inr y by (intro assms(2)) simp_all
  then show ?thesis by (simp add: Inr y)
qed

lemma pool_query_invariant:
  assumes "P s" "\<And>t. P t \<Longrightarrow> P (tick t)" "\<And>t. P t \<Longrightarrow> P (snd (stmt t))"
  shows "P (state_of (pool_query stmt s))"
proof (cases "query_rejects s")
  case True
  then show ?thesis using assms(1,2) by (simp add: pool_query_def)
next
  case False
  have "P (snd (stmt (tick s)))" using assms by simp
  then show ?thesis
    using False by (cases "stmt (tick s)") (simp add: pool_query_def)
qed

lemma add_body_invariant:
  assumes "P s"
    and tick: "\<And>t. P t \<Longrightarrow> P (tick t)"
    and log: "\<And>l t. P t \<Longrightarrow> P (log_line l t)"
    and reactivate: "\<And>v i t. P t \<Longrightarrow> P (snd (reactivate_product v i t))"
    and product: "\<And>d url t. P t \<Longrightarrow> P (snd (insert_product d url t))"
    and history: "\<And>i v t. P t \<Longrightarrow> P (snd (insert_price_history i v t))"
    and alert: "\<And>i e v k t. P t \<Longrightarrow> P (snd (insert_alert i e v k t))"
  shows "P (state_of (add_body observe req s))"
proof (cases "truthy_string (req_marketplace_url req)")
  case False
  then show ?thesis using assms(1) by (simp add: add_body_def)
next
  case True
  have scrape: "P (state_of (scrape_with observe url t))" if "P t" for url t
    using that log [OF that] by (cases "observe url") (simp_all add: scrape_with_def)
  have sel1: "P (state_of (pool_query (select_by_listing_id l) t))" if "P t" for l t
  proof (rule pool_query_invariant [where P = P])
    show "P (snd (select_by_listing_id l u))" if "P u" for u
      using that by (simp add: select_by_listing_id_def)
  qed (use that tick in simp_all)
  have sel2: "P (state_of (pool_query (select_product i) t))" if "P t" for i t
  proof (rule pool_query_invariant [where P = P])
    show "P (snd (select_product i u))" if "P u" for u
      using that by (simp add: select_product_def)
  qed (use that tick in simp_all)
  have ins: "P (state_of (pool_query (insert_price_history i v) t))" if "P t" for i v t
    by (rule pool_query_invariant [where P = P]) (use that tick history in simp_all)
  have react: "P (state_of (pool_query (reactivate_product v i) t))" if "P t" for i v t
    by (rule pool_query_invariant [where P = P]) (use that tick reactivate in simp_all)
  have insp: "P (state_of (pool_query (insert_product d url) t))" if "P t" for d url t
    by (rule pool_query_invariant [where P = P]) (use that tick product in simp_all)
  have upsert: "P (state_of (upsert_product d url existing t))" if "P t" for d url existing t
  proof (cases existing)
    case Nil
    then show ?thesis using insp [OF that] by (simp add: upsert_product_def)
  next
    case (Cons productId others)
    have "P (state_of (case pool_query (reactivate_product (ld_price d) productId) t of
             Inl x \<Rightarrow> Inl x
           | Inr (u, s1) \<Rightarrow> Inr (productId, s1)))"
      by (rule result_bind [where P = P], rule react [OF that]) simp
    then show ?thesis by (simp add: upsert_product_def Cons)
  qed
  have create: "P (state_of (create_alert req productId t))" if "P t" for productId t
  proof (cases "truthy_string (req_user_email req) \<and> truthy_number (req_target_price req)")
    case True
    have "P (state_of (pool_query (insert_alert productId (the (req_user_email req))
                         (the (req_target_price req)) ''price_drop'') t))"
      by (rule pool_query_invariant [where P = P]) (use that tick alert in simp_all)
    then show ?thesis using True by (simp add: create_alert_def)
  next
    case False
    then show ?thesis using that by (auto simp: create_alert_def)
  qed
  show ?thesis
    unfolding add_body_def
    apply (simp only: True not_True_eq_False if_False)
    apply (rule result_bind [where P = P])
     apply (rule scrape [OF assms(1)])
    apply (rule result_bind [where P = P])
     apply (erule sel1)
    apply (rule result_bind [where P = P])
     apply (erule upsert)
    apply (rule result_bind [where P = P])
     apply (erule ins)
    apply (rule result_bind [where P = P])
     apply (erule create)
    apply (rule result_bind [where P = P])
     apply (erule sel2)
    apply simp
    done
qed

lemma add_product_invariant:
  assumes "P s"
    and tick: "\<And>t. P t \<Longrightarrow> P (tick t)"
    and log: "\<And>l t. P t \<Longrightarrow> P (log_line l t)"
    and reactivate: "\<And>v i t. P t \<Longrightarrow> P (snd (reactivate_product v i t))"
    and product: "\<And>d url t. P t \<Longrightarrow> P (snd (insert_product d url t))"
    and history: "\<And>i v t. P t \<Longrightarrow> P (snd (insert_price_history i v t))"
    and alert: "\<And>i e v k t. P t \<Longrightarrow> P (snd (insert_alert i e v k t))"
  shows "P (snd (add_product_with observe req s))"
proof -
  have b: "P (state_of (add_body observe req s))"
    by (rule add_body_invariant [where P = P]) (use assms in simp_all)
  show ?thesis
  proof (cases "add_body observe req s")
    case (Inl x)
    obtain e s' where x: "x = (e, s')" by (cases x)
    have "P (log_line Error_adding_product s')" using b by (simp add: Inl x log)
    then show ?thesis by (simp add: add_product_with_def Inl x)
  next
    case (Inr y)
    obtain r s' where y: "y = (r, s')" by (cases y)
    have "P s'" using b by (simp add: Inr y)
    then show ?thesis by (simp add: add_product_with_def Inr y)
  qed
qed

lemma step_stable:
  assumes "stable P" "P s"
  shows "P (step x s)"
proof (cases x)
  case (Add_product observe req)
  note st = stableD [OF assms(1)]
  have "P (snd (add_product_with observe req s))"
    by (rule add_product_invariant [where P = P]) (use assms(2) st in simp_all)
  then show ?thesis by (simp add: Add_product)
next
  case (Check_product observe i)
  then show ?thesis using check_product_stable [OF assms] by simp
next
  case (Scheduled_check observe)
  then show ?thesis using scheduled_check_stable [OF assms] by simp
next
  case (Check_alerts i v)
  then show ?thesis using stableD(8) [OF assms] by simp
qed

lemma run_stable:
  assumes "stable P" "P s"
  shows "P (run ops s)"
  using assms(2)
proof (induction ops arbitrary: s)
  case Nil
  then show ?case by simp
next
  case (Cons x xs)
  have "P (step x s)" using assms(1) Cons.prems by (rule step_stable)
  then have "P (run xs (step x s))" by (rule Cons.IH)
  then show ?case by simp
qed

lemma reactivate_product_fields [simp]:
  "alerts (snd (reactivate_product v i s)) = alerts s"
  "next_alert_id (snd (reactivate_product v i s)) = next_alert_id s"
  "db_faults (snd (reactivate_product v i s)) = db_faults s"
  "price_history (snd (reactivate_product v i s)) = price_history s"
  by (simp_all add: reactivate_product_def)

lemma insert_product_fields [simp]:
  "alerts (snd (insert_product d url s)) = alerts s"
  "next_alert_id (snd (insert_product d url s)) = next_alert_id s"
  "db_faults (snd (insert_product d url s)) = db_faults s"
  "price_history (snd (insert_product d url s)) = price_history s"
  by (simp_all add: insert_product_def)

lemma insert_alert_fields [simp]:
  "alerts (snd (insert_alert i e v k s)) = alerts s @ [new_alert (next_alert_id s) i e v k]"
  "next_alert_id (snd (insert_alert i e v k s)) = Suc (next_alert_id s)"
  "db_faults (snd (insert_alert i e v k s)) = db_faults s"
  "price_history (snd (insert_alert i e v k s)) = price_history s"
  "products (snd (insert_alert i e v k s)) = products s"
  by (simp_all add: insert_alert_def)

lemma new_alert_fields [simp]:
  "a_id (new_alert j i e v k) = j" "is_active (new_alert j i e v k)"
  "triggered_at (new_alert j i e v k) = None" "product_id (new_alert j i e v k) = i"
  "target_price (new_alert j i e v k) = v" "user_email (new_alert j i e v k) = e"
  by (simp_all add: new_alert_def)

lemma alert_ids_ok_cong:
  "map a_id (alerts t) = map a_id (alerts s) \<Longrightarrow> next_alert_id t = next_alert_id s \<Longrightarrow>
   alert_ids_ok t = alert_ids_ok s"
  by (simp add: alert_ids_ok_def)

lemma alert_ids_ok_insert:
  assumes "alert_ids_ok t"
  shows "alert_ids_ok (snd (insert_alert i e v k t))"
proof -
  from assms have d: "distinct (map a_id (alerts t))"
    and b: "\<forall>j \<in> set (map a_id (alerts t)). j < next_alert_id t"
    by (simp_all add: alert_ids_ok_def list_all_iff)
  from b have "next_alert_id t \<notin> set (map a_id (alerts t))" by blast
  moreover from b have "\<forall>j \<in> set (map a_id (alerts t)). j < Suc (next_alert_id t)"
    by (simp add: less_Suc_eq)
  ultimately show ?thesis
    using d by (simp add: alert_ids_ok_def list_all_iff)
qed

lemma stable_alert_ids_ok: "stable alert_ids_ok"
  unfolding stable_def
proof (intro conjI allI impI)
  fix i v t
  assume "alert_ids_ok t"
  then show "alert_ids_ok (state_of (checkAlerts i v t))"
    using alert_ids_ok_cong [OF checkAlerts_keeps(5) checkAlerts_keeps(3), of i v t] by simp
qed (simp_all add: alert_ids_ok_insert, simp_all add: alert_ids_ok_def)

lemma stable_inactive_kept:
  assumes "\<not> is_active a"
  shows "stable (\<lambda>t. alert_ids_ok t \<and> a \<in> set (alerts t))"
proof -
  note ids = stableD [OF stable_alert_ids_ok]
  show ?thesis
    unfolding stable_def
  proof (intro conjI allI impI)
    fix i v t
    assume p: "alert_ids_ok t \<and> a \<in> set (alerts t)"
    then have "distinct (map a_id (alerts t))" by (simp add: alert_ids_ok_def)
    with p assms show "a \<in> set (alerts (state_of (checkAlerts i v t)))"
      by (intro inactive_kept) simp_all
  qed (simp_all add: ids)
qed

lemma list_all_map_kept:
  "list_all Q xs \<Longrightarrow> (\<And>x. Q x \<Longrightarrow> Q (f x)) \<Longrightarrow> list_all Q (map f xs)"
  by (induction xs) simp_all

lemma lifecycle_ok_marked:
  assumes "lifecycle_ok t"
  shows "lifecycle_ok (snd (mark_triggered i t))"
  unfolding lifecycle_ok_def mark_triggered_fields
  by (rule list_all_map_kept [OF assms [unfolded lifecycle_ok_def]])
     (simp add: deactivated_def)

lemma stable_lifecycle_ok: "stable lifecycle_ok"
  unfolding stable_def
proof (intro conjI allI impI)
  fix i v t
  assume "lifecycle_ok t"
  then show "lifecycle_ok (state_of (checkAlerts i v t))"
    by (rule checkAlerts_invariant [where P = lifecycle_ok])
       (simp_all add: lifecycle_ok_marked, simp_all add: lifecycle_ok_def)
qed (simp_all add: lifecycle_ok_def)

lemma stable_kept_or_fired:
  "stable (\<lambda>t :: sys. a \<in> set (alerts t) \<or> (\<exists>\<tau>. deactivated \<tau> a \<in> set (alerts t)))"
  unfolding stable_def
proof (intro conjI allI impI)
  fix i v and t :: sys
  assume p: "a \<in> set (alerts t) \<or> (\<exists>\<tau>. deactivated \<tau> a \<in> set (alerts t))"
  show "a \<in> set (alerts (state_of (checkAlerts i v t)))
      \<or> (\<exists>\<tau>. deactivated \<tau> a \<in> set (alerts (state_of (checkAlerts i v t))))"
  proof (rule checkAlerts_invariant
      [where P = "\<lambda>t :: sys. a \<in> set (alerts t) \<or> (\<exists>\<tau>. deactivated \<tau> a \<in> set (alerts t))"])
    fix r and u :: sys
    assume q: "a \<in> set (alerts u) \<or> (\<exists>\<tau>. deactivated \<tau> a \<in> set (alerts u))"
    let ?f = "\<lambda>b. if a_id b = a_id (row_alert r) then deactivated (clock u) b else b"
    from q show "a \<in> set (alerts (snd (mark_triggered (a_id (row_alert r)) u)))
      \<or> (\<exists>\<tau>. deactivated \<tau> a \<in> set (alerts (snd (mark_triggered (a_id (row_alert r)) u))))"
    proof
      assume m: "a \<in> set (alerts u)"
      then have "?f a \<in> set (alerts (snd (mark_triggered (a_id (row_alert r)) u)))"
        by (simp only: mark_triggered_fields set_map) (rule imageI)
      then show ?thesis by (cases "a_id a = a_id (row_alert r)") auto
    next
      assume "\<exists>\<tau>. deactivated \<tau> a \<in> set (alerts u)"
      then obtain \<tau> where m: "deactivated \<tau> a \<in> set (alerts u)" by blast
      then have "?f (deactivated \<tau> a) \<in> set (alerts (snd (mark_triggered (a_id (row_alert r)) u)))"
        by (simp only: mark_triggered_fields set_map) (rule imageI)
      then show ?thesis by (cases "a_id a = a_id (row_alert r)") auto
    qed
  qed (use p in simp_all)
qed (simp_all, blast)

lemma store_ok_more [simp]:
  "store_ok (snd (reactivate_product v i s)) = store_ok s"
  "store_ok (snd (insert_product d url s)) = store_ok s"
  "store_ok (snd (insert_alert i e v k s)) = store_ok s"
  by (simp_all add: store_ok_def)

lemma pool_query_ok_unit:
  fixes stmt :: "sys \<Rightarrow> unit \<times> sys"
  shows "store_ok s \<Longrightarrow> pool_query stmt s = Inr ((), snd (stmt (tick s)))"
  by (simp add: pool_query_unit store_ok_accepts)

lemma upsert_product_ok:
  assumes "store_ok s"
  shows "\<exists>pid s'. upsert_product d url existing s = Inr (pid, s') \<and> store_ok s'
     \<and> alerts s' = alerts s \<and> next_alert_id s' = next_alert_id s"
proof (cases existing)
  case Nil
  have e: "upsert_product d url existing s =
      Inr (fst (insert_product d url (tick s)), snd (insert_product d url (tick s)))"
    unfolding upsert_product_def Nil pool_query_ok [OF assms] by simp
  have "store_ok (snd (insert_product d url (tick s)))"
    "alerts (snd (insert_product d url (tick s))) = alerts s"
    "next_alert_id (snd (insert_product d url (tick s))) = next_alert_id s"
    using store_ok_tick [OF assms] by simp_all
  then show ?thesis
    unfolding e
    by (intro exI [of _ "fst (insert_product d url (tick s))"]
          exI [of _ "snd (insert_product d url (tick s))"] conjI refl)
next
  case (Cons pid others)
  show ?thesis
    unfolding upsert_product_def Cons
    using assms by (simp add: pool_query_ok_unit store_ok_tick)
qed

lemma add_product_creates:
  assumes ok: "store_ok s" and url: "req_marketplace_url req = Some url" "url \<noteq> []"
    and obs: "observe url = Inr d"
    and email: "req_user_email req = Some email" "email \<noteq> []"
    and target: "req_target_price req = Some target" "target \<noteq> 0"
  shows "\<exists>pid. alerts (snd (add_product_with observe req s)) =
     alerts s @ [new_alert (next_alert_id s) pid email target ''price_drop'']"
proof -
  define s2 where "s2 = tick s"
  have ok2: "store_ok s2" using ok by (simp add: s2_def store_ok_tick)
  have q1: "pool_query (select_by_listing_id (ld_listing_id d)) s =
      Inr (fst (select_by_listing_id (ld_listing_id d) s2), s2)"
    unfolding pool_query_ok [OF ok] s2_def by (simp add: select_by_listing_id_def)
  obtain pid s3 where u: "upsert_product d url
        (fst (select_by_listing_id (ld_listing_id d) s2)) s2 = Inr (pid, s3)"
    and s3': "store_ok s3" "alerts s3 = alerts s2" "next_alert_id s3 = next_alert_id s2"
    using upsert_product_ok [OF ok2, of d url "fst (select_by_listing_id (ld_listing_id d) s2)"]
    by blast
  have s3: "store_ok s3" "alerts s3 = alerts s" "next_alert_id s3 = next_alert_id s"
    using s3' by (simp_all add: s2_def)
  define s4 where "s4 = snd (insert_price_history pid (ld_price d) (tick s3))"
  have ok4: "store_ok s4" using s3(1) by (simp add: s4_def store_ok_tick)
  have q4: "pool_query (insert_price_history pid (ld_price d)) s3 = Inr ((), s4)"
    using s3(1) by (simp add: pool_query_ok_unit s4_def)
  define s5 where "s5 = snd (insert_alert pid email target ''price_drop'' (tick s4))"
  have ok5: "store_ok s5" using ok4 by (simp add: s5_def store_ok_tick)
  have q5: "create_alert req pid s4 = Inr ((), s5)"
    using ok4 email target
    by (simp add: create_alert_def truthy_string_def truthy_number_def pool_query_ok_unit s5_def)
  have q6: "pool_query (select_product pid) s5 = Inr (fst (select_product pid (tick s5)), tick s5)"
    unfolding pool_query_ok [OF ok5] by (simp add: select_product_def)
  have "add_body observe req s =
      Inr (Product_json (case fst (select_product pid (tick s5)) of [] \<Rightarrow> None
                         | p # ps \<Rightarrow> Some p), tick s5)"
    using url obs
    by (simp add: add_body_def truthy_string_def scrape_with_def q1 u q4 q5 q6)
  then have "alerts (snd (add_product_with observe req s)) = alerts (tick s5)"
    by (simp add: add_product_with_def)
  then have "alerts (snd (add_product_with observe req s)) =
     alerts s @ [new_alert (next_alert_id s) pid email target ''price_drop'']"
    by (simp add: s5_def s4_def s3)
  then show ?thesis by (rule exI [of _ pid])
qed

lemma add_product_new_alerts:
  "\<forall>b \<in> set (alerts (snd (add_product_with observe req s))).
     b \<in> set (alerts s) \<or> (is_active b \<and> triggered_at b = None)"
  by (rule add_product_invariant
      [where P = "\<lambda>t :: sys. \<forall>b \<in> set (alerts t).
                    b \<in> set (alerts s) \<or> (is_active b \<and> triggered_at b = None)"])
     simp_all



end
